theory Spec2Isabelle
  imports Main "HOL-Library.Word"
begin

unbundle bit_operations_syntax

section \<open>Host interface shared by the plugins\<close>

text \<open>
  The plugins under \<^verbatim>\<open>contrib/plugins\<close> are driven by the emulator through callbacks and
  act on it through a handful of API calls. The calls that are visible from outside are
  recorded, in order, as a list of events; \<^verbatim>\<open>exit()\<close> ends the process and is the outcome
  of a callback rather than an event.
\<close>

type_synonym u8 = "8 word"
type_synonym u32 = "32 word"
type_synonym u64 = "64 word"

text \<open>
  The texts handed to \<^verbatim>\<open>qemu_plugin_outs\<close>; one constructor per format string of the
  sources, carrying the arguments of the format:
  \<^item> \<open>SkippingInsn a\<close>: \<^verbatim>\<open>"skipping instruction at address 0x%" PRIx64 "\n"\<close>
  \<^item> \<open>PcSetTo a\<close>: \<^verbatim>\<open>"pc has been set to 0x%" PRIx64 "\n"\<close>
  \<^item> \<open>IcountReached a\<close>: \<^verbatim>\<open>"icount reached at 0x%" PRIx64 ", exiting\n"\<close>
  \<^item> \<open>AddrReached a\<close>: \<^verbatim>\<open>"0x%" PRIx64 " reached, exiting\n"\<close>
  \<^item> \<open>SnapshotSaved n\<close>: \<^verbatim>\<open>"machine state saved into snapshot '%s' !\n"\<close>
  \<^item> \<open>HwLeakage c l\<close>: \<^verbatim>\<open>"cpu=%d, hw_leakage=%ld\n"\<close>
\<close>

datatype message =
    SkippingInsn u64
  | PcSetTo u64
  | IcountReached u64
  | AddrReached u64
  | SnapshotSaved string
  | HwLeakage int u64

text \<open>
  \<open>Outs m\<close> is \<^verbatim>\<open>qemu_plugin_outs\<close>, \<open>SetPc a\<close> is \<^verbatim>\<open>qemu_plugin_set_pc\<close>,
  \<open>ExitCurrentTb\<close> is \<^verbatim>\<open>qemu_plugin_exit_current_tb\<close> and \<open>Savevm n\<close> is
  \<^verbatim>\<open>qemu_plugin_savevm\<close>.
\<close>

datatype event = Outs message | SetPc u64 | ExitCurrentTb | Savevm string

fun is_SetPc :: "event \<Rightarrow> bool" where
  "is_SetPc (SetPc a) = True"
| "is_SetPc e = False"

text \<open>
  The ways a plugin can bring the process down other than by \<^verbatim>\<open>exit\<close>: it dereferences
  \<^verbatim>\<open>NULL\<close>, it reads or writes outside an array, or a \<^verbatim>\<open>g_assert\<close> fails.
\<close>

datatype fault = NullDeref | OutOfBounds | AssertFailed


section \<open>skipinsn.c: skip one instruction\<close>

text \<open>
  \<^verbatim>\<open>typedef struct { uint64_t vaddr; size_t size; } InsnInfo;\<close> with a 64-bit
  \<^verbatim>\<open>size_t\<close>.
\<close>

record InsnInfo =
  vaddr :: u64
  insn_size :: u64

text \<open>
  The file-scope variables \<^verbatim>\<open>icount\<close> and \<^verbatim>\<open>executed_instructions\<close> of skipinsn.c. Both
  are \<^verbatim>\<open>static uint64_t\<close>, so both start at zero.
\<close>

record skipinsn_globals =
  icount_skip :: u64
  executed_instructions :: u64

text \<open>
  Modelled from the spec: \<^verbatim>\<open>qemu_plugin_exit_current_tb\<close> and \<^verbatim>\<open>qemu_plugin_set_pc\<close> belong
  to the plugin API, whose implementation is not among the sources. The spec describes the
  first as a request to end the current unit of execution after which the callback goes on
  and returns, so both are events after which the caller continues.

  \<^verbatim>\<open>vcpu_insn_exec\<close> of skipinsn.c; the result is the events of this call and the globals
  after it. \<^verbatim>\<open>cpu_index\<close> is not used by the source.
\<close>

definition vcpu_insn_exec_skipinsn ::
  "u32 \<Rightarrow> InsnInfo \<Rightarrow> skipinsn_globals \<Rightarrow> event list \<times> skipinsn_globals" where
  "vcpu_insn_exec_skipinsn cpu_index insn_info g =
     (let (evs, g1) =
        (if executed_instructions g = icount_skip g
         then ([Outs (SkippingInsn (vaddr insn_info)),
                SetPc (vaddr insn_info + insn_size insn_info),
                Outs (PcSetTo (vaddr insn_info + insn_size insn_info)),
                ExitCurrentTb],
               g\<lparr>executed_instructions := executed_instructions g + 1\<rparr>)
         else ([], g))
      in (evs, g1\<lparr>executed_instructions := executed_instructions g1 + 1\<rparr>))"

text \<open>
  A run of the plugin: the emulator calls \<^verbatim>\<open>vcpu_insn_exec\<close> once for every executed
  instruction, in order, whichever vCPU executes it.
\<close>

fun run_skipinsn ::
  "(u32 \<times> InsnInfo) list \<Rightarrow> skipinsn_globals \<Rightarrow> event list \<times> skipinsn_globals" where
  "run_skipinsn [] g = ([], g)"
| "run_skipinsn ((c, i) # rest) g =
     (let (evs, g1) = vcpu_insn_exec_skipinsn c i g;
          (evs', g2) = run_skipinsn rest g1
      in (evs @ evs', g2))"

definition skips :: "event list \<Rightarrow> nat" where
  "skips evs = length (filter is_SetPc evs)"

text \<open>The number of callbacks before the one that sees the counter equal to \<^verbatim>\<open>icount\<close>.\<close>

definition to_go :: "skipinsn_globals \<Rightarrow> nat" where
  "to_go g = unat (icount_skip g - executed_instructions g)"


section \<open>GLib functions used by the plugins\<close>

text \<open>
  GLib is a library outside the repository. The definitions of this section follow its
  reference manual and its implementation (\<^verbatim>\<open>gstrfuncs.c\<close>, \<^verbatim>\<open>glibconfig.h\<close>), as far as
  the plugins use them. A C string is a \<open>string\<close>, a pointer to one that may be \<^verbatim>\<open>NULL\<close> is
  a \<open>string option\<close>, and a \<^verbatim>\<open>NULL\<close>-terminated vector of strings (\<^verbatim>\<open>GStrv\<close>) is the list
  of the strings before the terminator.
\<close>

text \<open>
  \<^verbatim>\<open>g_strsplit(str, delim, 2)\<close> for a delimiter of one character: at most two tokens, the
  second being everything after the first delimiter. The empty string gives the empty
  vector, and \<^verbatim>\<open>NULL\<close> gives \<^verbatim>\<open>NULL\<close> (after a warning).
\<close>

definition g_strsplit :: "string option \<Rightarrow> char \<Rightarrow> string list option" where
  "g_strsplit str delim =
     (case str of
        None \<Rightarrow> None
      | Some s \<Rightarrow>
          Some (if s = [] then []
                else if delim \<in> set s
                  then [takeWhile (\<lambda>c. c \<noteq> delim) s, tl (dropWhile (\<lambda>c. c \<noteq> delim) s)]
                  else [s]))"

text \<open>
  \<open>strv v k\<close> is \<^verbatim>\<open>v[k]\<close> for \<open>k\<close> up to the position of the terminator, where it is
  \<^verbatim>\<open>NULL\<close>. Reading further is outside the vector; the callers below check that first.
\<close>

definition strv :: "string list \<Rightarrow> nat \<Rightarrow> string option" where
  "strv v k = (if k < length v then Some (v ! k) else None)"

text \<open>
  \<^verbatim>\<open>g_strrstr(haystack, needle)\<close>: the rest of \<open>haystack\<close> from the last occurrence of
  \<open>needle\<close>, or \<^verbatim>\<open>NULL\<close>.
\<close>

fun g_strrstr :: "string \<Rightarrow> string \<Rightarrow> string option" where
  "g_strrstr [] needle = (if needle = [] then Some [] else None)"
| "g_strrstr (c # cs) needle =
     (case g_strrstr cs needle of
        Some r \<Rightarrow> Some r
      | None \<Rightarrow> if take (length needle) (c # cs) = needle then Some (c # cs) else None)"

text \<open>
  \<^verbatim>\<open>g_ascii_strtoull(nptr, NULL, base)\<close>, after \<^verbatim>\<open>g_parse_long_long\<close>: white space is
  skipped, a sign is read, base 0 means base 16 after \<^verbatim>\<open>0x\<close>, base 8 after \<^verbatim>\<open>0\<close> and base 10
  otherwise; the digits are read as far as they go and whatever follows is ignored. No
  digit at all gives 0, a value beyond 64 bits gives \<^verbatim>\<open>G_MAXUINT64\<close>, and a minus sign
  negates the result modulo \<open>2 ^ 64\<close>. \<^verbatim>\<open>NULL\<close> gives 0 (after a warning).
\<close>

definition ISSPACE :: "char \<Rightarrow> bool" where
  "ISSPACE c \<longleftrightarrow> of_char c \<in> {32, 12, 10, 13, 9, 11 :: nat}"

definition digit_value :: "char \<Rightarrow> nat option" where
  "digit_value c =
     (let n = (of_char c :: nat)
      in if 48 \<le> n \<and> n \<le> 57 then Some (n - 48)
         else if 65 \<le> n \<and> n \<le> 90 then Some (n - 65 + 10)
         else if 97 \<le> n \<and> n \<le> 122 then Some (n - 97 + 10)
         else None)"

fun parse_digits :: "nat \<Rightarrow> string \<Rightarrow> u64 \<Rightarrow> bool \<Rightarrow> bool \<Rightarrow> u64 \<times> bool \<times> bool" where
  "parse_digits base [] ui64 overflow any = (ui64, overflow, any)"
| "parse_digits base (c # s) ui64 overflow any =
     (case digit_value c of
        None \<Rightarrow> (ui64, overflow, any)
      | Some d \<Rightarrow>
          if d \<ge> base then (ui64, overflow, any)
          else if ui64 > (- 1) div of_nat base
                  \<or> (ui64 = (- 1) div of_nat base \<and> of_nat d > (- 1 :: u64) mod of_nat base)
            then parse_digits base s ui64 True True
            else parse_digits base s (ui64 * of_nat base + of_nat d) overflow True)"

definition g_ascii_strtoull :: "string option \<Rightarrow> nat \<Rightarrow> u64" where
  "g_ascii_strtoull nptr base0 =
     (case nptr of
        None \<Rightarrow> 0
      | Some str \<Rightarrow>
          if base0 = 1 \<or> base0 > 36 then 0
          else
            let s = dropWhile ISSPACE str
            in if s = [] then 0
               else
                 let negative = (hd s = CHR ''-'');
                     s1 = (if hd s = CHR ''-'' \<or> hd s = CHR ''+'' then tl s else s);
                     prefixed = (s1 \<noteq> [] \<and> hd s1 = CHR ''0'' \<and> (base0 = 0 \<or> base0 = 16)
                                 \<and> tl s1 \<noteq> [] \<and> (hd (tl s1) = CHR ''x'' \<or> hd (tl s1) = CHR ''X''));
                     s2 = (if prefixed then drop 2 s1 else s1);
                     base = (if prefixed then 16
                             else if base0 = 0
                               then (if s1 \<noteq> [] \<and> hd s1 = CHR ''0'' then 8 else 10)
                               else base0);
                     r = parse_digits base s2 0 False False;
                     result = (if \<not> snd (snd r) then 0
                               else if fst (snd r) then - 1
                               else fst r)
                 in if negative then - result else result)"

text \<open>
  The conversions between integers and pointers of \<^verbatim>\<open>glibconfig.h\<close> on a host with 64-bit
  pointers and \<^verbatim>\<open>long\<close>. A pointer is the 64-bit word of its address.
  \<^verbatim>\<open>GUINT_TO_POINTER(u)\<close> is \<^verbatim>\<open>(gpointer) (gulong) (u)\<close> and keeps all 64 bits of a
  \<^verbatim>\<open>uint64_t\<close>; \<^verbatim>\<open>GPOINTER_TO_UINT(p)\<close> is \<^verbatim>\<open>(guint) (gulong) (p)\<close> and keeps the low
  32 bits.
\<close>

definition GUINT_TO_POINTER :: "u64 \<Rightarrow> u64" where
  "GUINT_TO_POINTER u = u"

definition GPOINTER_TO_UINT :: "u64 \<Rightarrow> u32" where
  "GPOINTER_TO_UINT p = ucast p"

text \<open>The conversion of a \<^verbatim>\<open>uint64_t\<close> to \<^verbatim>\<open>int\<close>: the low 32 bits, read as two's complement.\<close>

definition int_of_u64 :: "u64 \<Rightarrow> int" where
  "int_of_u64 x = sint (ucast x :: u32)"

section \<open>stoptrigger.c: stop at an instruction count or at an address\<close>

text \<open>
  The file-scope variables of stoptrigger.c. \<^verbatim>\<open>addrs_ht\<close> is a hash table with pointer keys
  compared by \<^verbatim>\<open>g_direct_equal\<close>; its values are exit codes stored through
  \<^verbatim>\<open>GINT_TO_POINTER\<close> and read back through \<^verbatim>\<open>GPOINTER_TO_INT\<close>, which returns the
  \<^verbatim>\<open>int\<close> that was stored. \<^verbatim>\<open>insn_count\<close> is the scoreboard: one 64-bit counter per vCPU
  index.
\<close>

record stoptrigger_globals =
  icount :: u64
  icount_exit_code :: int
  exit_on_icount :: bool
  exit_on_address :: bool
  addrs_ht :: "u64 \<rightharpoonup> int"
  snapshot_name :: "string option"
  tb_exited :: bool
  insn_count :: "u32 \<Rightarrow> u64"

text \<open>
  What a callback leaves behind: it returns to the emulator with the globals as they are
  now, or it has called \<^verbatim>\<open>exit\<close> and the process is over.
\<close>

datatype 'g outcome = Returned 'g | Exited int

definition exit_emulation :: "int \<Rightarrow> message \<Rightarrow> event list \<times> 'g outcome" where
  "exit_emulation return_code msg = ([Outs msg], Exited return_code)"

text \<open>
  \<^verbatim>\<open>g_hash_table_lookup\<close> followed by \<^verbatim>\<open>GPOINTER_TO_INT\<close>: a key that is not in the
  table gives \<^verbatim>\<open>NULL\<close>, which reads as 0.
\<close>

definition lookup_exit_code :: "(u64 \<rightharpoonup> int) \<Rightarrow> u64 \<Rightarrow> int" where
  "lookup_exit_code ht key = (case ht key of None \<Rightarrow> 0 | Some v \<Rightarrow> v)"

definition exit_icount_reached ::
  "u32 \<Rightarrow> u64 \<Rightarrow> stoptrigger_globals \<Rightarrow> event list \<times> stoptrigger_globals outcome" where
  "exit_icount_reached cpu_index udata g =
     (let insn_vaddr = (ucast (GPOINTER_TO_UINT udata) :: u64);
          msg = IcountReached insn_vaddr
      in case snapshot_name g of
           Some name \<Rightarrow>
             if \<not> tb_exited g
             then ([Outs msg, ExitCurrentTb], Returned (g\<lparr>tb_exited := True\<rparr>))
             else (let (evs, r) = exit_emulation (icount_exit_code g) (SnapshotSaved name)
                   in (Savevm name # evs, r))
         | None \<Rightarrow> exit_emulation (icount_exit_code g) msg)"

definition exit_address_reached ::
  "u32 \<Rightarrow> u64 \<Rightarrow> stoptrigger_globals \<Rightarrow> event list \<times> stoptrigger_globals outcome" where
  "exit_address_reached cpu_index udata g =
     (let insn_vaddr = (ucast (GPOINTER_TO_UINT udata) :: u64);
          msg = AddrReached insn_vaddr;
          exit_code = lookup_exit_code (addrs_ht g) (GUINT_TO_POINTER insn_vaddr)
      in case snapshot_name g of
           Some name \<Rightarrow>
             if \<not> tb_exited g
             then ([Outs msg, ExitCurrentTb], Returned (g\<lparr>tb_exited := True\<rparr>))
             else (let (evs, r) = exit_emulation exit_code (SnapshotSaved name)
                   in (Savevm name # evs, r))
         | None \<Rightarrow> exit_emulation exit_code msg)"

text \<open>
  What \<^verbatim>\<open>vcpu_tb_trans\<close> attaches to an instruction, in the order of the registrations:
  \<^item> \<open>InlineAddU64 n\<close>: \<^verbatim>\<open>qemu_plugin_register_vcpu_insn_exec_inline_per_vcpu\<close> with
    \<^verbatim>\<open>QEMU_PLUGIN_INLINE_ADD_U64\<close> on \<^verbatim>\<open>insn_count\<close>;
  \<^item> \<open>CondCbGE cb imm udata\<close>: \<^verbatim>\<open>qemu_plugin_register_vcpu_insn_exec_cond_cb\<close> with
    \<^verbatim>\<open>QEMU_PLUGIN_COND_GE\<close> on \<^verbatim>\<open>insn_count\<close>;
  \<^item> \<open>Cb cb udata\<close>: \<^verbatim>\<open>qemu_plugin_register_vcpu_insn_exec_cb\<close>.
\<close>

datatype callback = ExitIcountReached | ExitAddressReached

datatype instrumentation = InlineAddU64 u64 | CondCbGE callback u64 u64 | Cb callback u64

text \<open>The body of the loop of \<^verbatim>\<open>vcpu_tb_trans\<close>, for the instruction at address \<open>a\<close>.\<close>

definition vcpu_tb_trans_insn :: "stoptrigger_globals \<Rightarrow> u64 \<Rightarrow> instrumentation list" where
  "vcpu_tb_trans_insn g a =
     (let insn_vaddr = GUINT_TO_POINTER a
      in (if exit_on_icount g
          then [InlineAddU64 1, CondCbGE ExitIcountReached (icount g + 1) insn_vaddr]
          else [])
         @ (if exit_on_address g
            then (if addrs_ht g insn_vaddr \<noteq> None then [Cb ExitAddressReached insn_vaddr] else [])
            else []))"

text \<open>A translation block is the list of the addresses of its instructions.\<close>

definition vcpu_tb_trans_stoptrigger :: "stoptrigger_globals \<Rightarrow> u64 list \<Rightarrow> instrumentation list list" where
  "vcpu_tb_trans_stoptrigger g tb = map (vcpu_tb_trans_insn g) tb"

definition call :: "callback \<Rightarrow> u32 \<Rightarrow> u64 \<Rightarrow> stoptrigger_globals
    \<Rightarrow> event list \<times> stoptrigger_globals outcome" where
  "call cb cpu_index udata g =
     (case cb of
        ExitIcountReached \<Rightarrow> exit_icount_reached cpu_index udata g
      | ExitAddressReached \<Rightarrow> exit_address_reached cpu_index udata g)"

text \<open>
  Modelled from the spec: the emulator's side of the instrumentation is not among the
  sources. For every retired instruction it goes through what was registered for that
  instruction, in order, on the vCPU that executes it: the inline addition on that vCPU's
  slot of the scoreboard, the comparison of the slot with the immediate and the call of the
  callback when it holds, the call of an unconditional callback. A callback that exits
  ends the process; after one that returns, the emulator goes on.
\<close>

fun exec_insn :: "u32 \<Rightarrow> instrumentation list \<Rightarrow> stoptrigger_globals
    \<Rightarrow> event list \<times> stoptrigger_globals outcome" where
  "exec_insn c [] g = ([], Returned g)"
| "exec_insn c (InlineAddU64 n # ops) g =
     exec_insn c ops (g\<lparr>insn_count := (insn_count g)(c := insn_count g c + n)\<rparr>)"
| "exec_insn c (CondCbGE cb imm udata # ops) g =
     (if insn_count g c \<ge> imm
      then (case call cb c udata g of
              (evs, Exited code) \<Rightarrow> (evs, Exited code)
            | (evs, Returned g1) \<Rightarrow> (let (evs', r) = exec_insn c ops g1 in (evs @ evs', r)))
      else exec_insn c ops g)"
| "exec_insn c (Cb cb udata # ops) g =
     (case call cb c udata g of
        (evs, Exited code) \<Rightarrow> (evs, Exited code)
      | (evs, Returned g1) \<Rightarrow> (let (evs', r) = exec_insn c ops g1 in (evs @ evs', r)))"

text \<open>
  A run: the instructions retired, in order, each with the vCPU that executes it and its
  address, and each instrumented by \<^verbatim>\<open>vcpu_tb_trans\<close>. The run ends with the first callback
  that exits.
\<close>

fun run_stoptrigger :: "(u32 \<times> u64) list \<Rightarrow> stoptrigger_globals
    \<Rightarrow> event list \<times> stoptrigger_globals outcome" where
  "run_stoptrigger [] g = ([], Returned g)"
| "run_stoptrigger ((c, a) # rest) g =
     (case exec_insn c (vcpu_tb_trans_insn g a) g of
        (evs, Exited code) \<Rightarrow> (evs, Exited code)
      | (evs, Returned g1) \<Rightarrow> (let (evs', r) = run_stoptrigger rest g1 in (evs @ evs', r)))"

text \<open>The number of instructions of a trace that vCPU \<open>c\<close> executes.\<close>

definition n_on :: "u32 \<Rightarrow> (u32 \<times> u64) list \<Rightarrow> nat" where
  "n_on c tr = length (filter (\<lambda>x. fst x = c) tr)"

text \<open>No address trigger is attached to the instruction at \<open>a\<close>.\<close>

definition no_addr_trigger :: "stoptrigger_globals \<Rightarrow> u64 \<Rightarrow> bool" where
  "no_addr_trigger g a \<longleftrightarrow> \<not> (exit_on_address g \<and> addrs_ht g (GUINT_TO_POINTER a) \<noteq> None)"

text \<open>
  No snapshot before a request to leave the translation block: \<open>exit_tb_first seen evs\<close>
  holds when every \<open>Savevm\<close> of \<open>evs\<close> comes after an \<open>ExitCurrentTb\<close> of \<open>evs\<close>, or
  \<open>seen\<close> says that one came before \<open>evs\<close>.
\<close>

fun exit_tb_first :: "bool \<Rightarrow> event list \<Rightarrow> bool" where
  "exit_tb_first seen [] = True"
| "exit_tb_first seen (ExitCurrentTb # evs) = exit_tb_first True evs"
| "exit_tb_first seen (Savevm n # evs) = (seen \<and> exit_tb_first seen evs)"
| "exit_tb_first seen (e # evs) = exit_tb_first seen evs"

subsection \<open>Installation\<close>

text \<open>
  The lines that \<^verbatim>\<open>qemu_plugin_install\<close> prints on standard error:
  \<^item> \<open>IcountParsingFailed t\<close>: \<^verbatim>\<open>"icount parsing failed: '%s' must be a positive integer\n"\<close>
  \<^item> \<open>OptionParsingFailed opt\<close>: \<^verbatim>\<open>"option parsing failed: %s\n"\<close>
  \<^item> \<open>ArgumentMissing\<close>: \<^verbatim>\<open>"'icount' or 'addr' argument missing\n"\<close>
\<close>

datatype stderr_line =
    IcountParsingFailed "string option"
  | OptionParsingFailed string
  | ArgumentMissing

text \<open>The callbacks that \<^verbatim>\<open>qemu_plugin_install\<close> registers with the emulator.\<close>

datatype registration = VcpuTbTransCb | AtexitCb

text \<open>
  The state of the variables when \<^verbatim>\<open>qemu_plugin_install\<close> has created the hash table and
  the scoreboard: everything else is zero, being static.
\<close>

definition stoptrigger_start :: stoptrigger_globals where
  "stoptrigger_start =
     \<lparr>icount = 0, icount_exit_code = 0, exit_on_icount = False, exit_on_address = False,
      addrs_ht = Map.empty, snapshot_name = None, tb_exited = False, insn_count = (\<lambda>c. 0)\<rparr>"

text \<open>
  The body of the loop over \<^verbatim>\<open>argv\<close>. The result is a fault, or the globals together with
  the line printed when the function returns \<open>-1\<close> here.
\<close>

definition install_arg ::
  "string \<Rightarrow> stoptrigger_globals \<Rightarrow> fault + (stderr_line option \<times> stoptrigger_globals)" where
  "install_arg opt g =
     (case g_strsplit (Some opt) CHR ''='' of
        None \<Rightarrow> Inl NullDeref
      | Some tokens \<Rightarrow>
          if strv tokens 0 = Some ''icount'' then
            (case g_strsplit (strv tokens 1) CHR '':'' of
               None \<Rightarrow> Inl NullDeref
             | Some icount_tokens \<Rightarrow>
                 let g1 = g\<lparr>icount := g_ascii_strtoull (strv icount_tokens 0) 0\<rparr>
                 in if icount g1 < 1
                       \<or> (case strv icount_tokens 0 of
                             None \<Rightarrow> False
                           | Some t \<Rightarrow> g_strrstr t ''-'' \<noteq> None)
                    then Inr (Some (IcountParsingFailed (strv icount_tokens 0)), g1)
                    else if icount_tokens = [] then Inl OutOfBounds
                    else
                      let g2 = (case strv icount_tokens 1 of
                                  None \<Rightarrow> g1
                                | Some t \<Rightarrow>
                                    g1\<lparr>icount_exit_code := int_of_u64 (g_ascii_strtoull (Some t) 0)\<rparr>)
                      in Inr (None, g2\<lparr>exit_on_icount := True\<rparr>))
          else if strv tokens 0 = Some ''addr'' then
            (case g_strsplit (strv tokens 1) CHR '':'' of
               None \<Rightarrow> Inl NullDeref
             | Some addr_tokens \<Rightarrow>
                 let exit_addr = g_ascii_strtoull (strv addr_tokens 0) 0
                 in if addr_tokens = [] then Inl OutOfBounds
                    else
                      let exit_code = (case strv addr_tokens 1 of
                                         None \<Rightarrow> 0
                                       | Some t \<Rightarrow> int_of_u64 (g_ascii_strtoull (Some t) 0))
                      in Inr (None,
                              g\<lparr>addrs_ht := (addrs_ht g)(GUINT_TO_POINTER exit_addr \<mapsto> exit_code),
                                exit_on_address := True\<rparr>))
          else if strv tokens 0 = Some ''savevm'' then
            Inr (None, g\<lparr>snapshot_name := strv tokens 1\<rparr>)
          else Inr (Some (OptionParsingFailed opt), g))"

fun install_args ::
  "string list \<Rightarrow> stoptrigger_globals \<Rightarrow> fault + (stderr_line option \<times> stoptrigger_globals)" where
  "install_args [] g = Inr (None, g)"
| "install_args (opt # rest) g =
     (case install_arg opt g of
        Inl f \<Rightarrow> Inl f
      | Inr (Some e, g1) \<Rightarrow> Inr (Some e, g1)
      | Inr (None, g1) \<Rightarrow> install_args rest g1)"

text \<open>
  \<^verbatim>\<open>qemu_plugin_install\<close> of stoptrigger.c: the value returned, what was printed on standard
  error, the callbacks registered and the globals; or a fault.
\<close>

record installed =
  ret :: int
  printed :: "stderr_line list"
  registered :: "registration list"
  globals :: stoptrigger_globals

definition qemu_plugin_install_stoptrigger :: "string list \<Rightarrow> fault + installed" where
  "qemu_plugin_install_stoptrigger argv =
     (case install_args argv stoptrigger_start of
        Inl f \<Rightarrow> Inl f
      | Inr (Some e, g) \<Rightarrow> Inr \<lparr>ret = - 1, printed = [e], registered = [], globals = g\<rparr>
      | Inr (None, g) \<Rightarrow>
          if \<not> exit_on_icount g \<and> \<not> exit_on_address g
          then Inr \<lparr>ret = - 1, printed = [ArgumentMissing], registered = [], globals = g\<rparr>
          else Inr \<lparr>ret = 0, printed = [], registered = [VcpuTbTransCb, AtexitCb], globals = g\<rparr>)"

text \<open>The key of an argument: what stands before its first \<^verbatim>\<open>=\<close>.\<close>

definition key_of :: "string \<Rightarrow> string option" where
  "key_of opt = (case g_strsplit (Some opt) CHR ''='' of None \<Rightarrow> None | Some tokens \<Rightarrow> strv tokens 0)"

text \<open>The count token of an \<^verbatim>\<open>icount\<close> argument: what stands between \<^verbatim>\<open>=\<close> and the first \<^verbatim>\<open>:\<close>.\<close>

definition count_token :: "string \<Rightarrow> string option" where
  "count_token opt =
     (case g_strsplit (Some opt) CHR ''='' of
        None \<Rightarrow> None
      | Some tokens \<Rightarrow>
          (case g_strsplit (strv tokens 1) CHR '':'' of
             None \<Rightarrow> None
           | Some icount_tokens \<Rightarrow> strv icount_tokens 0))"

text \<open>An argument of the form \<^verbatim>\<open>key=value\<close> with a value that is not empty.\<close>

definition has_value :: "string \<Rightarrow> bool" where
  "has_value opt \<longleftrightarrow> CHR ''='' \<in> set opt \<and> tl (dropWhile (\<lambda>c. c \<noteq> CHR ''='') opt) \<noteq> []"

text \<open>An argument that setup refuses: an unknown key, or a count that is zero or has a \<^verbatim>\<open>-\<close>.\<close>

definition refused :: "string \<Rightarrow> bool" where
  "refused opt \<longleftrightarrow>
     (key_of opt \<noteq> Some ''icount'' \<and> key_of opt \<noteq> Some ''addr'' \<and> key_of opt \<noteq> Some ''savevm'')
     \<or> (key_of opt = Some ''icount''
         \<and> (g_ascii_strtoull (count_token opt) 0 = 0
            \<or> (case count_token opt of None \<Rightarrow> False | Some t \<Rightarrow> CHR ''-'' \<in> set t)))"

section \<open>sca_hw.c: Hamming-weight leakage of the registers\<close>

text \<open>
  \<^verbatim>\<open>static const char HAMMING_WEIGHT[]\<close>, the 256 entries of the source.
\<close>

definition HAMMING_WEIGHT :: "nat list" where
  "HAMMING_WEIGHT =
   [0, 1, 1, 2, 1, 2, 2, 3, 1, 2, 2, 3, 2, 3, 3, 4, 1, 2, 2, 3, 2, 3, 3, 4,
    2, 3, 3, 4, 3, 4, 4, 5, 1, 2, 2, 3, 2, 3, 3, 4, 2, 3, 3, 4, 3, 4, 4, 5,
    2, 3, 3, 4, 3, 4, 4, 5, 3, 4, 4, 5, 4, 5, 5, 6, 1, 2, 2, 3, 2, 3, 3, 4,
    2, 3, 3, 4, 3, 4, 4, 5, 2, 3, 3, 4, 3, 4, 4, 5, 3, 4, 4, 5, 4, 5, 5, 6,
    2, 3, 3, 4, 3, 4, 4, 5, 3, 4, 4, 5, 4, 5, 5, 6, 3, 4, 4, 5, 4, 5, 5, 6,
    4, 5, 5, 6, 5, 6, 6, 7, 1, 2, 2, 3, 2, 3, 3, 4, 2, 3, 3, 4, 3, 4, 4, 5,
    2, 3, 3, 4, 3, 4, 4, 5, 3, 4, 4, 5, 4, 5, 5, 6, 2, 3, 3, 4, 3, 4, 4, 5,
    3, 4, 4, 5, 4, 5, 5, 6, 3, 4, 4, 5, 4, 5, 5, 6, 4, 5, 5, 6, 5, 6, 6, 7,
    2, 3, 3, 4, 3, 4, 4, 5, 3, 4, 4, 5, 4, 5, 5, 6, 3, 4, 4, 5, 4, 5, 5, 6,
    4, 5, 5, 6, 5, 6, 6, 7, 3, 4, 4, 5, 4, 5, 5, 6, 4, 5, 5, 6, 5, 6, 6, 7,
    4, 5, 5, 6, 5, 6, 6, 7, 5, 6, 6, 7, 6, 7, 7, 8]"

text \<open>The population count of a byte: the number of its bits that are set.\<close>

definition popcount :: "u8 \<Rightarrow> nat" where
  "popcount b = length (filter (bit b) [0..<8])"

text \<open>
  A \<^verbatim>\<open>GByteArray\<close> lives on the heap and the plugin holds pointers to it. The heap maps
  the address of an array to its bytes; \<^verbatim>\<open>g_byte_array_new\<close> takes the next address that
  was never used. A register handle (\<^verbatim>\<open>struct qemu_plugin_register *\<close>) is opaque.
\<close>

type_synonym addr = nat
type_synonym handle = nat
type_synonym heap = "addr \<Rightarrow> u8 list"

text \<open>
  \<^verbatim>\<open>typedef struct { struct qemu_plugin_register *handle; GByteArray *last; GByteArray *new; } Register;\<close>
  The fields \<^verbatim>\<open>last\<close> and \<^verbatim>\<open>new\<close> are \<open>last_buf\<close> and \<open>new_buf\<close> here.
\<close>

record Register =
  handle :: handle
  last_buf :: addr
  new_buf :: addr

text \<open>
  \<^verbatim>\<open>typedef struct CPU { int last_cpu_index; GPtrArray *registers; } CPU;\<close>
  \<^verbatim>\<open>registers\<close> is \<^verbatim>\<open>NULL\<close> or the array of the registers of this vCPU.
\<close>

record CPU =
  last_cpu_index :: int
  registers :: "Register list option"

text \<open>
  The state of the plugin: the \<^verbatim>\<open>GArray\<close> \<^verbatim>\<open>cpus\<close>, and the heap of the byte arrays with
  the next address to allocate.
\<close>

record sca_state =
  cpus :: "CPU list"
  bytes :: heap
  fresh :: addr

text \<open>
  Modelled from the spec: \<^verbatim>\<open>qemu_plugin_read_register(handle, buf)\<close> belongs to the emulator.
  It appends the current bytes of the register to \<open>buf\<close> and returns their number. The
  bytes that the registers of the executing vCPU hold at the moment of a callback are the
  argument \<open>rf\<close> of the functions below, a function from handles to bytes.
\<close>

definition qemu_plugin_read_register :: "(handle \<Rightarrow> u8 list) \<Rightarrow> handle \<Rightarrow> addr \<Rightarrow> heap \<Rightarrow> nat \<times> heap" where
  "qemu_plugin_read_register rf hdl buf h = (length (rf hdl), h(buf := h buf @ rf hdl))"

text \<open>
  \<^verbatim>\<open>g_byte_array_set_size\<close> for a size that is not above the current one; the source
  calls it with size 0 only.
\<close>

definition g_byte_array_set_size :: "addr \<Rightarrow> nat \<Rightarrow> heap \<Rightarrow> heap" where
  "g_byte_array_set_size buf n h = h(buf := take n (h buf))"

text \<open>
  The loop over the registers of \<^verbatim>\<open>compute_hw_reg_leakage\<close>, with the running total. The
  inner loop adds the table entries of the bytes of \<^verbatim>\<open>reg->new\<close> from the last byte down to
  the first, in 64 bits. \<^verbatim>\<open>memcmp\<close> compares the first \<open>sz\<close> bytes.
\<close>

fun hw_regs :: "(handle \<Rightarrow> u8 list) \<Rightarrow> Register list \<Rightarrow> u64 \<Rightarrow> heap
    \<Rightarrow> fault + (u64 \<times> Register list \<times> heap)" where
  "hw_regs rf [] leakage h = Inr (leakage, [], h)"
| "hw_regs rf (reg # rest) leakage h =
     (let h1 = g_byte_array_set_size (new_buf reg) 0 h;
          (sz, h2) = qemu_plugin_read_register rf (handle reg) (new_buf reg) h1
      in if sz \<noteq> length (h2 (last_buf reg)) then Inl AssertFailed
         else if take sz (h2 (last_buf reg)) \<noteq> take sz (h2 (new_buf reg))
           then (case hw_regs rf rest
                        (fold (\<lambda>b l. l + of_nat (HAMMING_WEIGHT ! unat b))
                              (rev (take sz (h2 (new_buf reg)))) leakage) h2 of
                   Inl f \<Rightarrow> Inl f
                 | Inr (l, regs', h') \<Rightarrow>
                     Inr (l, reg\<lparr>last_buf := new_buf reg, new_buf := last_buf reg\<rparr> # regs', h'))
           else (case hw_regs rf rest leakage h2 of
                   Inl f \<Rightarrow> Inl f
                 | Inr (l, regs', h') \<Rightarrow> Inr (l, reg # regs', h')))"

text \<open>
  \<^verbatim>\<open>compute_hw_reg_leakage\<close>: the total, the vCPU with its registers after the swaps, and
  the heap.
\<close>

definition compute_hw_reg_leakage :: "(handle \<Rightarrow> u8 list) \<Rightarrow> CPU \<Rightarrow> heap \<Rightarrow> fault + (u64 \<times> CPU \<times> heap)" where
  "compute_hw_reg_leakage rf cpu h =
     (case registers cpu of
        None \<Rightarrow> Inl NullDeref
      | Some regs \<Rightarrow>
          (case hw_regs rf regs 0 h of
             Inl f \<Rightarrow> Inl f
           | Inr (leakage, regs', h') \<Rightarrow> Inr (leakage, cpu\<lparr>registers := Some regs'\<rparr>, h')))"

text \<open>
  \<^verbatim>\<open>get_cpu\<close> takes the address of an element of \<^verbatim>\<open>cpus\<close> and does not look at the length
  of the array: an index beyond it is an access outside the array.
\<close>

definition get_cpu :: "u32 \<Rightarrow> sca_state \<Rightarrow> fault + CPU" where
  "get_cpu vcpu_index s =
     (if unat vcpu_index < length (cpus s) then Inr (cpus s ! unat vcpu_index) else Inl OutOfBounds)"

text \<open>
  \<^verbatim>\<open>vcpu_insn_exec\<close> of sca_hw.c. The assignment of the \<^verbatim>\<open>unsigned int\<close> \<^verbatim>\<open>cpu_index\<close> to
  the \<^verbatim>\<open>int\<close> \<^verbatim>\<open>last_cpu_index\<close> reads the 32 bits as two's complement.
\<close>

definition vcpu_insn_exec_sca_hw :: "(handle \<Rightarrow> u8 list) \<Rightarrow> u32 \<Rightarrow> sca_state
    \<Rightarrow> fault + (event list \<times> sca_state)" where
  "vcpu_insn_exec_sca_hw rf cpu_index s =
     (case get_cpu cpu_index s of
        Inl f \<Rightarrow> Inl f
      | Inr cpu \<Rightarrow>
          if last_cpu_index cpu \<noteq> - 1
          then (case compute_hw_reg_leakage rf cpu (bytes s) of
                  Inl f \<Rightarrow> Inl f
                | Inr (leakage, cpu', h') \<Rightarrow>
                    Inr ([Outs (HwLeakage (last_cpu_index cpu) leakage)],
                         s\<lparr>cpus := (cpus s)[unat cpu_index := cpu'\<lparr>last_cpu_index := sint cpu_index\<rparr>],
                           bytes := h'\<rparr>))
          else Inr ([], s\<lparr>cpus := (cpus s)[unat cpu_index := cpu\<lparr>last_cpu_index := sint cpu_index\<rparr>]\<rparr>))"

text \<open>
  \<^verbatim>\<open>qemu_plugin_reg_descriptor\<close>, an element of the array that
  \<^verbatim>\<open>qemu_plugin_get_registers\<close> returns. That array, which the emulator provides, is the
  argument \<open>reg_list\<close> below.
\<close>

record qemu_plugin_reg_descriptor =
  desc_handle :: handle
  desc_name :: string
  desc_feature :: string

definition g_byte_array_new :: "sca_state \<Rightarrow> addr \<times> sca_state" where
  "g_byte_array_new s = (fresh s, s\<lparr>bytes := (bytes s)(fresh s := []), fresh := fresh s + 1\<rparr>)"

definition init_vcpu_register :: "(handle \<Rightarrow> u8 list) \<Rightarrow> qemu_plugin_reg_descriptor \<Rightarrow> sca_state
    \<Rightarrow> fault + (Register \<times> sca_state)" where
  "init_vcpu_register rf desc s =
     (let (l, s1) = g_byte_array_new s;
          (n, s2) = g_byte_array_new s1;
          reg = \<lparr>handle = desc_handle desc, last_buf = l, new_buf = n\<rparr>;
          (r, h) = qemu_plugin_read_register rf (handle reg) (last_buf reg) (bytes s2)
      in if r > 0 then Inr (reg, s2\<lparr>bytes := h\<rparr>) else Inl AssertFailed)"

text \<open>The loop of \<^verbatim>\<open>registers_init\<close>.\<close>

fun registers_loop :: "(handle \<Rightarrow> u8 list) \<Rightarrow> qemu_plugin_reg_descriptor list \<Rightarrow> sca_state
    \<Rightarrow> fault + (Register list \<times> sca_state)" where
  "registers_loop rf [] s = Inr ([], s)"
| "registers_loop rf (rd # rest) s =
     (case init_vcpu_register rf rd s of
        Inl f \<Rightarrow> Inl f
      | Inr (reg, s1) \<Rightarrow>
          (case registers_loop rf rest s1 of
             Inl f \<Rightarrow> Inl f
           | Inr (regs, s2) \<Rightarrow> Inr (reg # regs, s2)))"

text \<open>\<^verbatim>\<open>registers_init\<close> returns \<^verbatim>\<open>NULL\<close> when there is no register.\<close>

definition registers_init :: "(handle \<Rightarrow> u8 list) \<Rightarrow> qemu_plugin_reg_descriptor list \<Rightarrow> sca_state
    \<Rightarrow> fault + (Register list option \<times> sca_state)" where
  "registers_init rf reg_list s =
     (case registers_loop rf reg_list s of
        Inl f \<Rightarrow> Inl f
      | Inr (regs, s1) \<Rightarrow> Inr (if length regs \<noteq> 0 then Some regs else None, s1))"

text \<open>
  \<^verbatim>\<open>g_array_set_size\<close> on an array created with \<^verbatim>\<open>clear_\<close> set: new elements are zero, and
  a smaller size cuts the array.
\<close>

definition zero_CPU :: CPU where
  "zero_CPU = \<lparr>last_cpu_index = 0, registers = None\<rparr>"

definition g_array_set_size :: "CPU list \<Rightarrow> nat \<Rightarrow> CPU list" where
  "g_array_set_size a n = take n a @ replicate (n - length a) zero_CPU"

text \<open>
  \<^verbatim>\<open>vcpu_init\<close>. \<^verbatim>\<open>vcpu_index + 1\<close> is computed in 32 bits.
\<close>

definition vcpu_init :: "(handle \<Rightarrow> u8 list) \<Rightarrow> qemu_plugin_reg_descriptor list \<Rightarrow> u32 \<Rightarrow> sca_state
    \<Rightarrow> fault + sca_state" where
  "vcpu_init rf reg_list vcpu_index s =
     (let s1 = (if unat vcpu_index \<ge> length (cpus s)
                then s\<lparr>cpus := g_array_set_size (cpus s) (unat (vcpu_index + 1))\<rparr>
                else s)
      in case get_cpu vcpu_index s1 of
           Inl f \<Rightarrow> Inl f
         | Inr c \<Rightarrow>
             (let s2 = s1\<lparr>cpus := (cpus s1)[unat vcpu_index := c\<lparr>last_cpu_index := - 1\<rparr>]\<rparr>
              in case registers_init rf reg_list s2 of
                   Inl f \<Rightarrow> Inl f
                 | Inr (regs, s3) \<Rightarrow>
                     Inr (s3\<lparr>cpus := (cpus s3)[unat vcpu_index :=
                                 (cpus s3 ! unat vcpu_index)\<lparr>registers := regs\<rparr>]\<rparr>)))"

text \<open>
  \<^verbatim>\<open>qemu_plugin_install\<close> of sca_hw.c creates \<^verbatim>\<open>cpus\<close> empty (with room reserved), registers
  \<^verbatim>\<open>vcpu_init\<close> and \<^verbatim>\<open>vcpu_tb_trans\<close>, and returns 0. \<^verbatim>\<open>vcpu_tb_trans\<close> registers
  \<^verbatim>\<open>vcpu_insn_exec\<close> on every instruction.
\<close>

definition sca_hw_start :: sca_state where
  "sca_hw_start = \<lparr>cpus = [], bytes = (\<lambda>a. []), fresh = 0\<rparr>"

text \<open>
  A run on one vCPU: \<^verbatim>\<open>vcpu_insn_exec\<close> is called for every instruction that vCPU
  \<open>cpu_index\<close> retires, in order; \<open>rfs\<close> gives the bytes of the registers at each call. The
  run stops at the first fault.
\<close>

fun run_sca_hw :: "u32 \<Rightarrow> (handle \<Rightarrow> u8 list) list \<Rightarrow> sca_state \<Rightarrow> fault + (event list \<times> sca_state)" where
  "run_sca_hw cpu_index [] s = Inr ([], s)"
| "run_sca_hw cpu_index (rf # rfs) s =
     (case vcpu_insn_exec_sca_hw rf cpu_index s of
        Inl f \<Rightarrow> Inl f
      | Inr (evs, s1) \<Rightarrow>
          (case run_sca_hw cpu_index rfs s1 of
             Inl f \<Rightarrow> Inl f
           | Inr (evs', s2) \<Rightarrow> Inr (evs @ evs', s2)))"

text \<open>The addresses of the byte arrays of a list of registers.\<close>

definition bufs :: "Register list \<Rightarrow> addr list" where
  "bufs regs = map last_buf regs @ map new_buf regs"

text \<open>
  What a register adds to the leakage when its bytes are now \<open>rf (handle reg)\<close> and were
  \<open>h (last_buf reg)\<close>: the sum of the population counts of the new bytes if they differ
  from the old ones, and nothing if they are the same.
\<close>

definition contribution :: "(handle \<Rightarrow> u8 list) \<Rightarrow> heap \<Rightarrow> Register \<Rightarrow> nat" where
  "contribution rf h reg =
     (if rf (handle reg) \<noteq> h (last_buf reg) then sum_list (map popcount (rf (handle reg))) else 0)"

text \<open>The register after the compare step, and the heap after the loop.\<close>

definition swapped :: "(handle \<Rightarrow> u8 list) \<Rightarrow> heap \<Rightarrow> Register \<Rightarrow> Register" where
  "swapped rf h reg =
     (if rf (handle reg) \<noteq> h (last_buf reg)
      then reg\<lparr>last_buf := new_buf reg, new_buf := last_buf reg\<rparr> else reg)"

definition read_all :: "(handle \<Rightarrow> u8 list) \<Rightarrow> Register list \<Rightarrow> heap \<Rightarrow> heap" where
  "read_all rf regs h = fold (\<lambda>reg h. h(new_buf reg := rf (handle reg))) regs h"


section \<open>skipinsn.c: the skip happens at most once\<close>

lemma to_go_0: "to_go g = 0 \<longleftrightarrow> executed_instructions g = icount_skip g"
  by (auto simp: to_go_def unat_eq_0)

lemma to_go_step:
  assumes "executed_instructions g \<noteq> icount_skip g"
  shows "to_go (snd (vcpu_insn_exec_skipinsn c i g)) = to_go g - 1"
proof -
  let ?d = "icount_skip g - executed_instructions g"
  from assms have nz: "?d \<noteq> 0" by simp
  have "to_go (snd (vcpu_insn_exec_skipinsn c i g))
      = unat (icount_skip g - (executed_instructions g + 1))"
    using assms by (simp add: to_go_def vcpu_insn_exec_skipinsn_def)
  also have "icount_skip g - (executed_instructions g + 1) = ?d - 1" by simp
  also have "unat (?d - 1) = unat ?d - 1" using nz by (rule unat_minus_one)
  finally show ?thesis by (simp add: to_go_def)
qed

lemma skip_step_quiet:
  assumes "executed_instructions g \<noteq> icount_skip g"
  shows "fst (vcpu_insn_exec_skipinsn c i g) = []"
  using assms by (simp add: vcpu_insn_exec_skipinsn_def)

lemma skip_step_icount: "icount_skip (snd (vcpu_insn_exec_skipinsn c i g)) = icount_skip g"
  by (simp add: vcpu_insn_exec_skipinsn_def)

lemma run_quiet: "length tr \<le> to_go g \<Longrightarrow> skips (fst (run_skipinsn tr g)) = 0"
proof (induction tr arbitrary: g)
  case Nil
  then show ?case by (simp add: skips_def)
next
  case (Cons x tr)
  obtain c i where x: "x = (c, i)" by (cases x)
  from Cons.prems have pos: "to_go g \<noteq> 0" by auto
  then have ne: "executed_instructions g \<noteq> icount_skip g" by (simp add: to_go_0)
  let ?g1 = "snd (vcpu_insn_exec_skipinsn c i g)"
  have "length tr \<le> to_go ?g1" using Cons.prems to_go_step [OF ne] by simp
  then have "skips (fst (run_skipinsn tr ?g1)) = 0" by (rule Cons.IH)
  then show ?case using skip_step_quiet [OF ne, of c i]
    by (simp add: x split_beta skips_def)
qed

lemma skip_step_fire:
  assumes "executed_instructions g = icount_skip g"
  shows "skips (fst (vcpu_insn_exec_skipinsn c i g)) = 1"
    and "to_go (snd (vcpu_insn_exec_skipinsn c i g)) = 2 ^ 64 - 2"
proof -
  show "skips (fst (vcpu_insn_exec_skipinsn c i g)) = 1"
    using assms by (simp add: vcpu_insn_exec_skipinsn_def skips_def)
  have "icount_skip g - (icount_skip g + 1 + 1) = (- 2 :: u64)" by simp
  moreover have "unat (- 2 :: u64) = 2 ^ 64 - 2" by simp
  ultimately show "to_go (snd (vcpu_insn_exec_skipinsn c i g)) = 2 ^ 64 - 2"
    using assms by (simp add: vcpu_insn_exec_skipinsn_def to_go_def)
qed

lemma run_at_most_once:
  "length tr \<le> to_go g + (2 ^ 64 - 1) \<Longrightarrow> skips (fst (run_skipinsn tr g)) \<le> 1"
proof (induction tr arbitrary: g)
  case Nil
  then show ?case by (simp add: skips_def)
next
  case (Cons x tr)
  obtain c i where x: "x = (c, i)" by (cases x)
  let ?r = "vcpu_insn_exec_skipinsn c i g"
  have app: "skips (fst (run_skipinsn (x # tr) g))
      = skips (fst ?r) + skips (fst (run_skipinsn tr (snd ?r)))"
    by (simp add: x split_beta skips_def)
  show ?case
  proof (cases "executed_instructions g = icount_skip g")
    case True
    then have "to_go g = 0" by (simp add: to_go_0)
    with Cons.prems have "length tr \<le> to_go (snd ?r)"
      using skip_step_fire(2) [OF True, of c i] by simp
    then have "skips (fst (run_skipinsn tr (snd ?r))) = 0" by (rule run_quiet)
    then show ?thesis using app skip_step_fire(1) [OF True, of c i] by simp
  next
    case False
    then have "to_go g \<noteq> 0" by (simp add: to_go_0)
    with Cons.prems have "length tr \<le> to_go (snd ?r) + (2 ^ 64 - 1)"
      using to_go_step [OF False, of c i] by simp
    then have "skips (fst (run_skipinsn tr (snd ?r))) \<le> 1" by (rule Cons.IH)
    then show ?thesis using app skip_step_quiet [OF False, of c i] by (simp add: skips_def)
  qed
qed


text \<open>
  Claim C10. In skipinsn.c, a callback performs the skip (it sets the program counter to the
  address just past the instruction and then asks to leave the translation block) exactly
  when the global counter \<^verbatim>\<open>executed_instructions\<close> equals \<^verbatim>\<open>icount\<close>. On that call the
  counter is incremented twice, inside the branch and on the normal path, so it ends at
  \<^verbatim>\<open>icount + 2\<close>, above the threshold (the 64-bit counter not wrapping); on every other
  call it is incremented once and nothing else happens. The callbacks that follow a skip
  do not skip again, and a whole run, which starts with the counter at zero, skips at most
  once. The counter is a \<^verbatim>\<open>uint64_t\<close>: the run-level statements are for runs of fewer than
  \<open>2 ^ 64\<close> callbacks, after which the counter would come round to \<^verbatim>\<open>icount\<close> again.
\<close>

theorem skipinsn_skips_at_most_once:
  "(executed_instructions g = icount_skip g \<longrightarrow>
      fst (vcpu_insn_exec_skipinsn c i g) =
        [Outs (SkippingInsn (vaddr i)), SetPc (vaddr i + insn_size i),
         Outs (PcSetTo (vaddr i + insn_size i)), ExitCurrentTb] \<and>
      executed_instructions (snd (vcpu_insn_exec_skipinsn c i g)) = icount_skip g + 2 \<and>
      (unat (icount_skip g) + 2 < 2 ^ 64 \<longrightarrow>
         icount_skip g < executed_instructions (snd (vcpu_insn_exec_skipinsn c i g))) \<and>
      (length tr \<le> 2 ^ 64 - 2 \<longrightarrow>
         skips (fst (run_skipinsn tr (snd (vcpu_insn_exec_skipinsn c i g)))) = 0)) \<and>
   (executed_instructions g \<noteq> icount_skip g \<longrightarrow>
      fst (vcpu_insn_exec_skipinsn c i g) = [] \<and>
      executed_instructions (snd (vcpu_insn_exec_skipinsn c i g)) = executed_instructions g + 1) \<and>
   icount_skip (snd (vcpu_insn_exec_skipinsn c i g)) = icount_skip g \<and>
   (executed_instructions g = 0 \<and> length tr < 2 ^ 64 \<longrightarrow>
      skips (fst (run_skipinsn tr g)) \<le> 1)"
proof (intro conjI impI)
  assume eq: "executed_instructions g = icount_skip g"
  show "fst (vcpu_insn_exec_skipinsn c i g) =
        [Outs (SkippingInsn (vaddr i)), SetPc (vaddr i + insn_size i),
         Outs (PcSetTo (vaddr i + insn_size i)), ExitCurrentTb]"
    using eq by (simp add: vcpu_insn_exec_skipinsn_def)
  show after: "executed_instructions (snd (vcpu_insn_exec_skipinsn c i g)) = icount_skip g + 2"
    using eq by (simp add: vcpu_insn_exec_skipinsn_def)
  {
    assume small: "unat (icount_skip g) + 2 < 2 ^ 64"
    have "unat (icount_skip g + 2) = unat (icount_skip g) + 2"
      using small by (simp add: unat_word_ariths)
    then have "icount_skip g < icount_skip g + 2"
      by (simp add: word_less_nat_alt)
    then show "icount_skip g < executed_instructions (snd (vcpu_insn_exec_skipinsn c i g))"
      using after by simp
  }
  {
    assume "length tr \<le> 2 ^ 64 - 2"
    then have "length tr \<le> to_go (snd (vcpu_insn_exec_skipinsn c i g))"
      using skip_step_fire(2) [OF eq, of c i] by simp
    then show "skips (fst (run_skipinsn tr (snd (vcpu_insn_exec_skipinsn c i g)))) = 0"
      by (rule run_quiet)
  }
next
  assume ne: "executed_instructions g \<noteq> icount_skip g"
  show "fst (vcpu_insn_exec_skipinsn c i g) = []"
    using ne by (simp add: vcpu_insn_exec_skipinsn_def)
  show "executed_instructions (snd (vcpu_insn_exec_skipinsn c i g)) = executed_instructions g + 1"
    using ne by (simp add: vcpu_insn_exec_skipinsn_def)
next
  show "icount_skip (snd (vcpu_insn_exec_skipinsn c i g)) = icount_skip g"
    by (rule skip_step_icount)
next
  assume "executed_instructions g = 0 \<and> length tr < 2 ^ 64"
  then have "length tr \<le> to_go g + (2 ^ 64 - 1)" by simp
  then show "skips (fst (run_skipinsn tr g)) \<le> 1" by (rule run_at_most_once)
qed

text \<open>
  With \<^verbatim>\<open>icount=1\<close>, three instructions of four bytes from \<open>0x1000\<close>: the second one is
  skipped, the counter passes from 1 to 3, and the third callback finds it at 3.
\<close>

theorem skipinsn_skips_at_most_once_witness:
  "executed_instructions \<lparr>icount_skip = 1, executed_instructions = 1\<rparr> = icount_skip \<lparr>icount_skip = 1, executed_instructions = 1\<rparr> \<and>
   fst (vcpu_insn_exec_skipinsn 0 \<lparr>vaddr = 0x1004, insn_size = 4\<rparr>
          \<lparr>icount_skip = 1, executed_instructions = 1\<rparr>) =
     [Outs (SkippingInsn 0x1004), SetPc 0x1008, Outs (PcSetTo 0x1008), ExitCurrentTb] \<and>
   executed_instructions (snd (vcpu_insn_exec_skipinsn 0 \<lparr>vaddr = 0x1004, insn_size = 4\<rparr>
          \<lparr>icount_skip = 1, executed_instructions = 1\<rparr>)) = 3 \<and>
   (1 :: u64) < 3 \<and>
   skips (fst (run_skipinsn [(0, \<lparr>vaddr = 0x1008, insn_size = 4\<rparr>)]
     (snd (vcpu_insn_exec_skipinsn 0 \<lparr>vaddr = 0x1004, insn_size = 4\<rparr>
          \<lparr>icount_skip = 1, executed_instructions = 1\<rparr>)))) = 0 \<and>
   fst (vcpu_insn_exec_skipinsn 0 \<lparr>vaddr = 0x1000, insn_size = 4\<rparr>
          \<lparr>icount_skip = 1, executed_instructions = 0\<rparr>) = [] \<and>
   skips (fst (run_skipinsn
      [(0, \<lparr>vaddr = 0x1000, insn_size = 4\<rparr>), (0, \<lparr>vaddr = 0x1004, insn_size = 4\<rparr>),
       (0, \<lparr>vaddr = 0x1008, insn_size = 4\<rparr>)]
      \<lparr>icount_skip = 1, executed_instructions = 0\<rparr>)) \<le> 1"
  using skipinsn_skips_at_most_once
          [of "\<lparr>icount_skip = 1, executed_instructions = 1\<rparr>" 0
              "\<lparr>vaddr = 0x1004, insn_size = 4\<rparr>" "[(0, \<lparr>vaddr = 0x1008, insn_size = 4\<rparr>)]"]
        skipinsn_skips_at_most_once
          [of "\<lparr>icount_skip = 1, executed_instructions = 0\<rparr>" 0
              "\<lparr>vaddr = 0x1000, insn_size = 4\<rparr>"
              "[(0, \<lparr>vaddr = 0x1000, insn_size = 4\<rparr>), (0, \<lparr>vaddr = 0x1004, insn_size = 4\<rparr>),
                (0, \<lparr>vaddr = 0x1008, insn_size = 4\<rparr>)]"]
  by simp

section \<open>stoptrigger.c: the instruction-count trigger\<close>

lemma unat_plus_one: "(x :: 'a::len word) \<noteq> - 1 \<Longrightarrow> unat (x + 1) = unat x + 1"
  by (metis Suc_eq_plus1 add.commute add_eq_0_iff unatSuc)

lemma trans_icount_only:
  "exit_on_icount g \<Longrightarrow> no_addr_trigger g a \<Longrightarrow>
   vcpu_tb_trans_insn g a = [InlineAddU64 1, CondCbGE ExitIcountReached (icount g + 1) (GUINT_TO_POINTER a)]"
  by (auto simp: vcpu_tb_trans_insn_def no_addr_trigger_def Let_def)

lemma step_below:
  assumes "exit_on_icount g" "no_addr_trigger g a" "icount g \<noteq> - 1"
    and "unat (insn_count g c) < unat (icount g)"
  shows "exec_insn c (vcpu_tb_trans_insn g a) g =
           ([], Returned (g\<lparr>insn_count := (insn_count g)(c := insn_count g c + 1)\<rparr>))"
proof -
  have ne: "insn_count g c \<noteq> - 1" using assms(4)
    by (metis not_less word_le_nat_alt word_order.extremum)
  have "unat (insn_count g c + 1) < unat (icount g + 1)"
    using assms(3,4) ne by (simp add: unat_plus_one)
  then have "\<not> icount g + 1 \<le> insn_count g c + 1"
    by (simp add: word_le_nat_alt)
  then show ?thesis using assms(1,2) by (simp add: trans_icount_only)
qed

lemma step_at:
  assumes "exit_on_icount g" "no_addr_trigger g a" "snapshot_name g = None"
    and "insn_count g c = icount g"
  shows "exec_insn c (vcpu_tb_trans_insn g a) g =
           ([Outs (IcountReached (ucast (GPOINTER_TO_UINT (GUINT_TO_POINTER a))))], Exited (icount_exit_code g))"
  using assms by (simp add: trans_icount_only call_def exit_icount_reached_def exit_emulation_def)

lemma n_on_Cons: "n_on c ((c', a) # tr) = (if c' = c then 1 else 0) + n_on c tr"
  by (simp add: n_on_def)

lemma run_below:
  assumes "exit_on_icount g" "icount g \<noteq> - 1"
    and "\<forall>x\<in>set tr. no_addr_trigger g (snd x)"
    and "\<forall>c. unat (insn_count g c) + n_on c tr \<le> unat (icount g)"
  shows "run_stoptrigger tr g =
           ([], Returned (g\<lparr>insn_count := (\<lambda>c. insn_count g c + of_nat (n_on c tr))\<rparr>))"
  using assms
proof (induction tr arbitrary: g)
  case Nil
  then show ?case by (simp add: n_on_def)
next
  case (Cons x tr)
  obtain c a where x: "x = (c, a)" by (cases x)
  let ?g1 = "g\<lparr>insn_count := (insn_count g)(c := insn_count g c + 1)\<rparr>"
  from Cons.prems(4) have "unat (insn_count g c) + n_on c (x # tr) \<le> unat (icount g)" by blast
  then have lt: "unat (insn_count g c) < unat (icount g)" by (simp add: x n_on_Cons)
  have noa: "no_addr_trigger g a" using Cons.prems(3) by (simp add: x)
  have step: "exec_insn c (vcpu_tb_trans_insn g a) g = ([], Returned ?g1)"
    using Cons.prems(1) noa Cons.prems(2) lt by (rule step_below)
  have ne: "insn_count g c \<noteq> - 1" using lt
    by (metis not_less word_le_nat_alt word_order.extremum)
  have p1: "exit_on_icount ?g1" using Cons.prems(1) by simp
  have p2: "icount ?g1 \<noteq> - 1" using Cons.prems(2) by simp
  have p3: "\<forall>x\<in>set tr. no_addr_trigger ?g1 (snd x)"
    using Cons.prems(3) by (simp add: no_addr_trigger_def)
  have p4: "\<forall>c'. unat (insn_count ?g1 c') + n_on c' tr \<le> unat (icount ?g1)"
  proof
    fix c'
    from Cons.prems(4) have "unat (insn_count g c') + n_on c' (x # tr) \<le> unat (icount g)" by blast
    then show "unat (insn_count ?g1 c') + n_on c' tr \<le> unat (icount ?g1)"
      using ne by (auto simp: x n_on_Cons unat_plus_one)
  qed
  have "run_stoptrigger tr ?g1 =
      ([], Returned (?g1\<lparr>insn_count := (\<lambda>c'. insn_count ?g1 c' + of_nat (n_on c' tr))\<rparr>))"
    using p1 p2 p3 p4 by (rule Cons.IH)
  moreover have "(\<lambda>c'. insn_count ?g1 c' + of_nat (n_on c' tr))
      = (\<lambda>c'. insn_count g c' + of_nat (n_on c' (x # tr)))"
    by (auto simp: fun_eq_iff x n_on_Cons)
  ultimately show ?case using step by (simp add: x)
qed

lemma run_append:
  "run_stoptrigger (xs @ ys) g =
     (case run_stoptrigger xs g of
        (evs, Exited code) \<Rightarrow> (evs, Exited code)
      | (evs, Returned g1) \<Rightarrow> (let (evs', r) = run_stoptrigger ys g1 in (evs @ evs', r)))"
proof (induction xs arbitrary: g)
  case Nil
  then show ?case by simp
next
  case (Cons x xs)
  obtain c a where x: "x = (c, a)" by (cases x)
  show ?case
    by (simp add: x Cons.IH split: prod.splits outcome.splits)
qed

lemma step_counts:
  "exec_insn c (vcpu_tb_trans_insn g a) g = (evs, Returned g') \<Longrightarrow> exit_on_icount g \<Longrightarrow>
     insn_count g' = (insn_count g)(c := insn_count g c + 1)"
  by (auto simp: vcpu_tb_trans_insn_def Let_def call_def exit_icount_reached_def
        exit_address_reached_def exit_emulation_def
      split: if_splits option.splits prod.splits outcome.splits)

text \<open>
  The count trigger below the wrap. With a limit \<open>L\<close> other than \<open>2 ^ 64 - 1\<close>
  (\<^verbatim>\<open>icount=5:7\<close> gives \<open>L = 5\<close> and exit code 7), a scoreboard that starts at zero and
  no address trigger on the instructions of the run: every retired instruction adds exactly
  one to the counter of the vCPU that executes it; as long as no vCPU has executed more
  than \<open>L\<close> instructions nothing happens; the instruction that is number \<open>L + 1\<close> on
  its vCPU calls \<^verbatim>\<open>exit_icount_reached\<close>, and with no snapshot name configured the process
  exits there with the configured exit code.
\<close>

lemma icount_trigger_below_wrap:
  assumes "exit_on_icount g" and "icount g \<noteq> - 1" and "\<forall>c'. insn_count g c' = 0"
    and "\<forall>x\<in>set tr. no_addr_trigger g (snd x)" and "no_addr_trigger g a"
    and "\<forall>c'. n_on c' tr \<le> unat (icount g)"
  shows "run_stoptrigger tr g = ([], Returned (g\<lparr>insn_count := (\<lambda>c'. of_nat (n_on c' tr))\<rparr>)) \<and>
         (n_on c tr = unat (icount g) \<and> snapshot_name g = None \<longrightarrow>
            run_stoptrigger (tr @ [(c, a)]) g =
              ([Outs (IcountReached (ucast (GPOINTER_TO_UINT (GUINT_TO_POINTER a))))],
               Exited (icount_exit_code g))) \<and>
         (\<forall>evs g'. exec_insn c (vcpu_tb_trans_insn g a) g = (evs, Returned g') \<longrightarrow>
            insn_count g' = (insn_count g)(c := insn_count g c + 1))"
proof (intro conjI impI allI)
  have "\<forall>c'. unat (insn_count g c') + n_on c' tr \<le> unat (icount g)"
    using assms(3,6) by simp
  with assms(1,2,4) have "run_stoptrigger tr g =
      ([], Returned (g\<lparr>insn_count := (\<lambda>c'. insn_count g c' + of_nat (n_on c' tr))\<rparr>))"
    by (rule run_below)
  then show quiet: "run_stoptrigger tr g =
      ([], Returned (g\<lparr>insn_count := (\<lambda>c'. of_nat (n_on c' tr))\<rparr>))"
    using assms(3) by simp
  {
    assume at: "n_on c tr = unat (icount g) \<and> snapshot_name g = None"
    let ?g1 = "g\<lparr>insn_count := (\<lambda>c'. of_nat (n_on c' tr))\<rparr>"
    have "exec_insn c (vcpu_tb_trans_insn ?g1 a) ?g1 =
        ([Outs (IcountReached (ucast (GPOINTER_TO_UINT (GUINT_TO_POINTER a))))],
         Exited (icount_exit_code ?g1))"
    proof (rule step_at)
      show "exit_on_icount ?g1" using assms(1) by simp
      show "no_addr_trigger ?g1 a" using assms(5) by (simp add: no_addr_trigger_def)
      show "snapshot_name ?g1 = None" using at by simp
      show "insn_count ?g1 c = icount ?g1" using at by simp
    qed
    then show "run_stoptrigger (tr @ [(c, a)]) g =
        ([Outs (IcountReached (ucast (GPOINTER_TO_UINT (GUINT_TO_POINTER a))))],
         Exited (icount_exit_code g))"
      by (simp add: run_append quiet)
  }
next
  fix evs g'
  assume "exec_insn c (vcpu_tb_trans_insn g a) g = (evs, Returned g')"
  then show "insn_count g' = (insn_count g)(c := insn_count g c + 1)"
    using assms(1) by (rule step_counts)
qed

lemmas install_defs = qemu_plugin_install_stoptrigger_def install_arg_def g_strsplit_def strv_def
  g_ascii_strtoull_def ISSPACE_def digit_value_def int_of_u64_def Let_def stoptrigger_start_def
  GUINT_TO_POINTER_def

text \<open>
  \<^verbatim>\<open>icount=5:7\<close>: six instructions, five of them on vCPU 0, pass; the sixth instruction
  of vCPU 0 ends the process with exit code 7.
\<close>

lemma icount_trigger_example:
  "qemu_plugin_install_stoptrigger [''icount=5:7''] =
     Inr \<lparr>ret = 0, printed = [], registered = [VcpuTbTransCb, AtexitCb],
          globals = stoptrigger_start\<lparr>icount := 5, icount_exit_code := 7, exit_on_icount := True\<rparr>\<rparr> \<and>
   run_stoptrigger [(0, 0x1000), (1, 0x2000), (0, 0x1004), (0, 0x1008), (0, 0x100c), (0, 0x1010)]
       (stoptrigger_start\<lparr>icount := 5, icount_exit_code := 7, exit_on_icount := True\<rparr>) =
     ([], Returned (stoptrigger_start\<lparr>icount := 5, icount_exit_code := 7, exit_on_icount := True,
            insn_count := (\<lambda>c'. of_nat (n_on c'
              [(0, 0x1000), (1, 0x2000), (0, 0x1004), (0, 0x1008), (0, 0x100c), (0, 0x1010)]))\<rparr>)) \<and>
   n_on 0 [(0, 0x1000), (1, 0x2000), (0, 0x1004), (0, 0x1008), (0, 0x100c), (0, 0x1010)] = 5 \<and>
   run_stoptrigger ([(0, 0x1000), (1, 0x2000), (0, 0x1004), (0, 0x1008), (0, 0x100c), (0, 0x1010)] @ [(0, 0x1014)])
       (stoptrigger_start\<lparr>icount := 5, icount_exit_code := 7, exit_on_icount := True\<rparr>) =
     ([Outs (IcountReached 0x1014)], Exited 7)"
  using icount_trigger_below_wrap
    [of "stoptrigger_start\<lparr>icount := 5, icount_exit_code := 7, exit_on_icount := True\<rparr>"
        "[(0, 0x1000), (1, 0x2000), (0, 0x1004), (0, 0x1008), (0, 0x100c), (0, 0x1010)]"
        "0x1014" 0]
  by (simp add: install_defs no_addr_trigger_def n_on_def GPOINTER_TO_UINT_def)

text \<open>
  Claim C3. With a limit \<open>L\<close> and an exit code \<open>C\<close> configured, every retired instruction
  adds one to the counter of its vCPU, the exit fires when that counter reaches \<open>L + 1\<close>,
  on instruction \<open>L + 1\<close> of the vCPU, and with no snapshot name the process then exits
  with \<open>C\<close>. This fails for \<open>L = 2 ^ 64 - 1\<close>, which \<^verbatim>\<open>qemu_plugin_install\<close> accepts
  (its only check is \<^verbatim>\<open>icount < 1\<close> or a \<^verbatim>\<open>-\<close> in the text) and which
  \<^verbatim>\<open>g_ascii_strtoull\<close> also returns for every number that does not fit 64 bits:
  \<^verbatim>\<open>vcpu_tb_trans\<close> computes the threshold \<^verbatim>\<open>icount + 1\<close> in 64 bits, where it is 0, and
  the comparison \<^verbatim>\<open>insn_count >= 0\<close> holds at once. With
  \<^verbatim>\<open>icount=18446744073709551615:7\<close>, and with \<^verbatim>\<open>icount=99999999999999999999:7\<close>, the
  first instruction ends the process with exit code 7.
\<close>

theorem icount_trigger_fires_at_once_at_max:
  "qemu_plugin_install_stoptrigger [''icount=18446744073709551615:7''] =
     Inr \<lparr>ret = 0, printed = [], registered = [VcpuTbTransCb, AtexitCb],
          globals = stoptrigger_start\<lparr>icount := - 1, icount_exit_code := 7, exit_on_icount := True\<rparr>\<rparr> \<and>
   qemu_plugin_install_stoptrigger [''icount=99999999999999999999:7''] =
     Inr \<lparr>ret = 0, printed = [], registered = [VcpuTbTransCb, AtexitCb],
          globals = stoptrigger_start\<lparr>icount := - 1, icount_exit_code := 7, exit_on_icount := True\<rparr>\<rparr> \<and>
   vcpu_tb_trans_insn
       (stoptrigger_start\<lparr>icount := - 1, icount_exit_code := 7, exit_on_icount := True\<rparr>) 0x1000 =
     [InlineAddU64 1, CondCbGE ExitIcountReached 0 0x1000] \<and>
   run_stoptrigger [(0, 0x1000)]
       (stoptrigger_start\<lparr>icount := - 1, icount_exit_code := 7, exit_on_icount := True\<rparr>) =
     ([Outs (IcountReached 0x1000)], Exited 7)"
proof -
  have "g_ascii_strtoull (Some ''18446744073709551615'') 0 = - 1"
    and "g_ascii_strtoull (Some ''99999999999999999999'') 0 = - 1"
    and "g_ascii_strtoull (Some ''7'') 0 = 7"
    by code_simp+
  then show ?thesis
    by (simp add: qemu_plugin_install_stoptrigger_def install_arg_def g_strsplit_def strv_def
          int_of_u64_def Let_def stoptrigger_start_def GUINT_TO_POINTER_def
          vcpu_tb_trans_insn_def call_def exit_icount_reached_def exit_emulation_def
          GPOINTER_TO_UINT_def)
qed

section \<open>stoptrigger.c: the two phases of the exit with a snapshot\<close>

lemma exit_tb_first_append:
  "exit_tb_first seen (xs @ ys) \<longleftrightarrow>
     exit_tb_first seen xs \<and> exit_tb_first (seen \<or> ExitCurrentTb \<in> set xs) ys"
proof (induction xs arbitrary: seen)
  case Nil
  then show ?case by simp
next
  case (Cons e xs)
  then show ?case by (cases e) auto
qed

lemma exit_tb_first_mono: "exit_tb_first seen evs \<Longrightarrow> exit_tb_first True evs"
proof (induction evs arbitrary: seen)
  case Nil
  then show ?case by simp
next
  case (Cons e evs)
  then show ?case by (cases e) auto
qed

lemma call_cases:
  "call cb c u g = (evs, r) \<Longrightarrow>
     (snapshot_name g \<noteq> None \<and> \<not> tb_exited g \<and> r = Returned (g\<lparr>tb_exited := True\<rparr>)
        \<and> (\<exists>m. evs = [Outs m, ExitCurrentTb]))
   \<or> (\<exists>n code. snapshot_name g = Some n \<and> tb_exited g \<and> r = Exited code
        \<and> evs = [Savevm n, Outs (SnapshotSaved n)])
   \<or> (\<exists>m code. snapshot_name g = None \<and> r = Exited code \<and> evs = [Outs m])"
  by (cases cb)
     (auto simp: call_def exit_icount_reached_def exit_address_reached_def exit_emulation_def Let_def
           split: option.splits if_splits)

lemma call_order:
  assumes "call cb c u g = (evs, r)" and "tb_exited g \<longrightarrow> seen"
  shows "exit_tb_first seen evs \<and> (\<forall>g1. r = Returned g1 \<longrightarrow> ExitCurrentTb \<in> set evs \<and> tb_exited g1
            \<and> snapshot_name g1 = snapshot_name g)"
  using call_cases [OF assms(1)] assms(2) by auto

lemma exec_insn_order:
  "exec_insn c ops g = (evs, r) \<Longrightarrow> (tb_exited g \<longrightarrow> seen) \<Longrightarrow>
     exit_tb_first seen evs \<and>
     (\<forall>g1. r = Returned g1 \<longrightarrow> (tb_exited g1 \<longrightarrow> seen \<or> ExitCurrentTb \<in> set evs)
         \<and> (tb_exited g \<longrightarrow> tb_exited g1) \<and> snapshot_name g1 = snapshot_name g)"
proof (induction c ops g arbitrary: evs r seen rule: exec_insn.induct)
  case (1 c g)
  then show ?case by auto
next
  case (2 c n ops g)
  from "2.prems" have "exec_insn c ops (g\<lparr>insn_count := (insn_count g)(c := insn_count g c + n)\<rparr>) = (evs, r)"
    by simp
  from "2.IH" [OF this, of seen] "2.prems"(2) show ?case by simp
next
  case (3 c cb imm udata ops g)
  show ?case
  proof (cases "imm \<le> insn_count g c")
    case False
    with "3.prems" have "exec_insn c ops g = (evs, r)" by simp
    from "3.IH"(2) [OF False this "3.prems"(2)] show ?thesis .
  next
    case True
    obtain evs0 r0 where cl: "call cb c udata g = (evs0, r0)" by (cases "call cb c udata g")
    note co = call_order [OF cl "3.prems"(2)]
    show ?thesis
    proof (cases r0)
      case (Exited code)
      with "3.prems" True cl co show ?thesis by auto
    next
      case (Returned g1)
      obtain evs1 r1 where rest: "exec_insn c ops g1 = (evs1, r1)" by (cases "exec_insn c ops g1")
      from co Returned have t1: "tb_exited g1" and ex: "ExitCurrentTb \<in> set evs0"
        and sn: "snapshot_name g1 = snapshot_name g" by auto
      have "tb_exited g1 \<longrightarrow> True" by simp
      from "3.IH"(1) [OF True cl [symmetric] Returned rest this]
      have ih: "exit_tb_first True evs1 \<and>
         (\<forall>g2. r1 = Returned g2 \<longrightarrow> (tb_exited g1 \<longrightarrow> tb_exited g2) \<and> snapshot_name g2 = snapshot_name g1)"
        by auto
      from "3.prems"(1) True cl Returned rest have "evs = evs0 @ evs1" "r = r1" by auto
      with ih co ex t1 sn show ?thesis by (auto simp: exit_tb_first_append)
    qed
  qed
next
  case (4 c cb udata ops g)
  obtain evs0 r0 where cl: "call cb c udata g = (evs0, r0)" by (cases "call cb c udata g")
  note co = call_order [OF cl "4.prems"(2)]
  show ?case
  proof (cases r0)
    case (Exited code)
    with "4.prems" cl co show ?thesis by auto
  next
    case (Returned g1)
    obtain evs1 r1 where rest: "exec_insn c ops g1 = (evs1, r1)" by (cases "exec_insn c ops g1")
    from co Returned have t1: "tb_exited g1" and ex: "ExitCurrentTb \<in> set evs0"
      and sn: "snapshot_name g1 = snapshot_name g" by auto
    have "tb_exited g1 \<longrightarrow> True" by simp
    from "4.IH" [OF cl [symmetric] Returned rest this]
    have ih: "exit_tb_first True evs1 \<and>
       (\<forall>g2. r1 = Returned g2 \<longrightarrow> (tb_exited g1 \<longrightarrow> tb_exited g2) \<and> snapshot_name g2 = snapshot_name g1)"
      by auto
    from "4.prems"(1) cl Returned rest have "evs = evs0 @ evs1" "r = r1" by auto
    with ih co ex t1 sn show ?thesis by (auto simp: exit_tb_first_append)
  qed
qed


lemma run_order:
  "run_stoptrigger tr g = (evs, r) \<Longrightarrow> (tb_exited g \<longrightarrow> seen) \<Longrightarrow>
     exit_tb_first seen evs \<and>
     (\<forall>g1. r = Returned g1 \<longrightarrow> (tb_exited g \<longrightarrow> tb_exited g1) \<and> snapshot_name g1 = snapshot_name g)"
proof (induction tr arbitrary: g evs r seen)
  case Nil
  then show ?case by auto
next
  case (Cons x tr)
  obtain c a where x: "x = (c, a)" by (cases x)
  obtain evs0 r0 where st: "exec_insn c (vcpu_tb_trans_insn g a) g = (evs0, r0)"
    by (cases "exec_insn c (vcpu_tb_trans_insn g a) g")
  note eo = exec_insn_order [OF st Cons.prems(2)]
  show ?case
  proof (cases r0)
    case (Exited code)
    with Cons.prems(1) st eo show ?thesis by (auto simp: x)
  next
    case (Returned g1)
    obtain evs1 r1 where rest: "run_stoptrigger tr g1 = (evs1, r1)"
      by (cases "run_stoptrigger tr g1")
    from eo Returned have "tb_exited g1 \<longrightarrow> seen \<or> ExitCurrentTb \<in> set evs0" by simp
    from Cons.IH [OF rest this]
    have ih: "exit_tb_first (seen \<or> ExitCurrentTb \<in> set evs0) evs1 \<and>
        (\<forall>g2. r1 = Returned g2 \<longrightarrow> (tb_exited g1 \<longrightarrow> tb_exited g2) \<and> snapshot_name g2 = snapshot_name g1)" .
    from Cons.prems(1) st Returned rest have "evs = evs0 @ evs1" "r = r1" by (auto simp: x)
    with ih eo Returned show ?thesis by (auto simp: exit_tb_first_append)
  qed
qed

text \<open>
  The two phases. With a snapshot name configured, the first call of a trigger callback,
  \<^verbatim>\<open>exit_icount_reached\<close> or \<^verbatim>\<open>exit_address_reached\<close>, prints its diagnostic (the texts are
  \<^verbatim>\<open>icount reached at 0x..., exiting\<close> and \<^verbatim>\<open>0x... reached, exiting\<close>), asks to leave the
  translation block, sets \<^verbatim>\<open>tb_exited\<close> and returns: the process goes on. The next call, of
  either callback, saves the snapshot under the configured name and then exits:
  \<^verbatim>\<open>exit_icount_reached\<close> with \<^verbatim>\<open>icount_exit_code\<close>, which is 0 unless the configuration
  gave another, and \<^verbatim>\<open>exit_address_reached\<close> with what the table holds for the low 32
  bits of the address, which is the code configured for the address when the address fits
  32 bits. In a run that starts with the flag unset, no snapshot is taken before a request
  to leave the translation block.
\<close>

lemma snapshot_two_phases:
  "(snapshot_name g = Some name \<and> \<not> tb_exited g \<longrightarrow>
      exit_icount_reached c u g =
        ([Outs (IcountReached (ucast (GPOINTER_TO_UINT u))), ExitCurrentTb],
         Returned (g\<lparr>tb_exited := True\<rparr>)) \<and>
      exit_address_reached c u g =
        ([Outs (AddrReached (ucast (GPOINTER_TO_UINT u))), ExitCurrentTb],
         Returned (g\<lparr>tb_exited := True\<rparr>)) \<and>
      exit_icount_reached c' u' (g\<lparr>tb_exited := True\<rparr>) =
        ([Savevm name, Outs (SnapshotSaved name)], Exited (icount_exit_code g)) \<and>
      exit_address_reached c' u' (g\<lparr>tb_exited := True\<rparr>) =
        ([Savevm name, Outs (SnapshotSaved name)],
         Exited (lookup_exit_code (addrs_ht g) (ucast (GPOINTER_TO_UINT u')))) \<and>
      (ucast (ucast u' :: u32) = u' \<and> addrs_ht g u' = Some code \<longrightarrow>
         exit_address_reached c' u' (g\<lparr>tb_exited := True\<rparr>) =
           ([Savevm name, Outs (SnapshotSaved name)], Exited code))) \<and>
   (\<not> tb_exited g \<longrightarrow> exit_tb_first False (fst (run_stoptrigger tr g)))"
proof (intro conjI impI)
  assume a: "snapshot_name g = Some name \<and> \<not> tb_exited g"
  then show "exit_icount_reached c u g =
        ([Outs (IcountReached (ucast (GPOINTER_TO_UINT u))), ExitCurrentTb],
         Returned (g\<lparr>tb_exited := True\<rparr>))"
    by (simp add: exit_icount_reached_def)
  from a show "exit_address_reached c u g =
        ([Outs (AddrReached (ucast (GPOINTER_TO_UINT u))), ExitCurrentTb],
         Returned (g\<lparr>tb_exited := True\<rparr>))"
    by (simp add: exit_address_reached_def)
  from a show "exit_icount_reached c' u' (g\<lparr>tb_exited := True\<rparr>) =
        ([Savevm name, Outs (SnapshotSaved name)], Exited (icount_exit_code g))"
    by (simp add: exit_icount_reached_def exit_emulation_def)
  from a show "exit_address_reached c' u' (g\<lparr>tb_exited := True\<rparr>) =
        ([Savevm name, Outs (SnapshotSaved name)],
         Exited (lookup_exit_code (addrs_ht g) (ucast (GPOINTER_TO_UINT u'))))"
    by (simp add: exit_address_reached_def exit_emulation_def GUINT_TO_POINTER_def)
  {
    assume "ucast (ucast u' :: u32) = u' \<and> addrs_ht g u' = Some code"
    with a show "exit_address_reached c' u' (g\<lparr>tb_exited := True\<rparr>) =
           ([Savevm name, Outs (SnapshotSaved name)], Exited code)"
      by (simp add: exit_address_reached_def exit_emulation_def GUINT_TO_POINTER_def
            GPOINTER_TO_UINT_def lookup_exit_code_def)
  }
next
  assume "\<not> tb_exited g"
  then have "tb_exited g \<longrightarrow> False" by simp
  moreover obtain evs r where "run_stoptrigger tr g = (evs, r)" by (cases "run_stoptrigger tr g")
  ultimately show "exit_tb_first False (fst (run_stoptrigger tr g))"
    using run_order [of tr g evs r False] by simp
qed

text \<open>
  \<^verbatim>\<open>icount=3\<close> with \<^verbatim>\<open>savevm=snap1\<close>: the fourth instruction requests the exit from the
  translation block, the fifth saves \<^verbatim>\<open>snap1\<close> and exits with code 0. With
  \<^verbatim>\<open>icount=1:5\<close>, \<^verbatim>\<open>addr=0x1004:9\<close> and \<^verbatim>\<open>savevm=s\<close> the count trigger requests the exit
  on the second instruction, and on that same instruction the address trigger, called
  next, saves the snapshot and exits with 9.
\<close>

lemma snapshot_examples:
  "qemu_plugin_install_stoptrigger [''icount=3'', ''savevm=snap1''] =
     Inr \<lparr>ret = 0, printed = [], registered = [VcpuTbTransCb, AtexitCb],
          globals = stoptrigger_start\<lparr>icount := 3, exit_on_icount := True, snapshot_name := Some ''snap1''\<rparr>\<rparr> \<and>
   run_stoptrigger [(0, 0x1000), (0, 0x1004), (0, 0x1008), (0, 0x100c), (0, 0x1010)]
       (stoptrigger_start\<lparr>icount := 3, exit_on_icount := True, snapshot_name := Some ''snap1''\<rparr>) =
     ([Outs (IcountReached 0x100c), ExitCurrentTb, Savevm ''snap1'', Outs (SnapshotSaved ''snap1'')],
      Exited 0) \<and>
   qemu_plugin_install_stoptrigger [''icount=1:5'', ''addr=0x1004:9'', ''savevm=s''] =
     Inr \<lparr>ret = 0, printed = [], registered = [VcpuTbTransCb, AtexitCb],
          globals = stoptrigger_start\<lparr>icount := 1, icount_exit_code := 5, exit_on_icount := True,
            exit_on_address := True, addrs_ht := [0x1004 \<mapsto> 9], snapshot_name := Some ''s''\<rparr>\<rparr> \<and>
   run_stoptrigger [(0, 0x1000), (0, 0x1004)]
       (stoptrigger_start\<lparr>icount := 1, icount_exit_code := 5, exit_on_icount := True,
            exit_on_address := True, addrs_ht := [0x1004 \<mapsto> 9], snapshot_name := Some ''s''\<rparr>) =
     ([Outs (IcountReached 0x1004), ExitCurrentTb, Savevm ''s'', Outs (SnapshotSaved ''s'')],
      Exited 9)"
  by (simp add: install_defs GPOINTER_TO_UINT_def vcpu_tb_trans_insn_def call_def
        exit_icount_reached_def exit_address_reached_def exit_emulation_def word_le_nat_alt
        lookup_exit_code_def)

text \<open>
  Claim C4. With a snapshot name configured, the first trigger invocation prints a
  diagnostic, asks to leave the translation block without exiting, records it and returns;
  the next trigger invocation saves the snapshot under the configured name and then exits
  with the configured exit code; no snapshot is taken before the request. The code does
  this but for the exit code of the address trigger: \<^verbatim>\<open>exit_address_reached\<close> gets the
  address back through \<^verbatim>\<open>GPOINTER_TO_UINT\<close>, which keeps 32 bits, and looks the truncated
  address up. With \<^verbatim>\<open>addr=0x100001000:2\<close> and \<^verbatim>\<open>savevm=snap1\<close>, the instruction at
  \<open>0x100001000\<close> requests the exit from the translation block, and when it comes again the
  snapshot \<^verbatim>\<open>snap1\<close> is saved and the process exits with code 0, not 2.
\<close>

theorem snapshot_exit_code_above_4G:
  "qemu_plugin_install_stoptrigger [''addr=0x100001000:2'', ''savevm=snap1''] =
     Inr \<lparr>ret = 0, printed = [], registered = [VcpuTbTransCb, AtexitCb],
          globals = stoptrigger_start\<lparr>exit_on_address := True, addrs_ht := [0x100001000 \<mapsto> 2],
            snapshot_name := Some ''snap1''\<rparr>\<rparr> \<and>
   run_stoptrigger [(0, 0x100001000), (0, 0x100001000)]
       (stoptrigger_start\<lparr>exit_on_address := True, addrs_ht := [0x100001000 \<mapsto> 2],
            snapshot_name := Some ''snap1''\<rparr>) =
     ([Outs (AddrReached 0x1000), ExitCurrentTb, Savevm ''snap1'', Outs (SnapshotSaved ''snap1'')],
      Exited 0)"
  by (simp add: install_defs GPOINTER_TO_UINT_def vcpu_tb_trans_insn_def call_def
        exit_address_reached_def exit_emulation_def lookup_exit_code_def)

text \<open>
  Claim C9. \<^verbatim>\<open>tb_exited\<close> is one variable of the process, read and written by
  \<^verbatim>\<open>exit_icount_reached\<close> and by \<^verbatim>\<open>exit_address_reached\<close> on whatever vCPU they run. With
  a snapshot name configured, either callback sets it on its first call and returns; once
  it is set, either callback, on any vCPU and for any instruction, saves the snapshot and
  exits the process, and requests no second exit from the translation block. A callback
  returns only by setting the flag, and no run resets it (nor changes the snapshot name).
\<close>

theorem tb_exited_shared_and_never_reset:
  "(snapshot_name g = Some name \<and> \<not> tb_exited g \<longrightarrow>
      exit_icount_reached c u g =
        ([Outs (IcountReached (ucast (GPOINTER_TO_UINT u))), ExitCurrentTb],
         Returned (g\<lparr>tb_exited := True\<rparr>)) \<and>
      exit_address_reached c u g =
        ([Outs (AddrReached (ucast (GPOINTER_TO_UINT u))), ExitCurrentTb],
         Returned (g\<lparr>tb_exited := True\<rparr>))) \<and>
   (snapshot_name g = Some name \<and> tb_exited g \<longrightarrow>
      exit_icount_reached c u g =
        ([Savevm name, Outs (SnapshotSaved name)], Exited (icount_exit_code g)) \<and>
      exit_address_reached c u g =
        ([Savevm name, Outs (SnapshotSaved name)],
         Exited (lookup_exit_code (addrs_ht g) (GUINT_TO_POINTER (ucast (GPOINTER_TO_UINT u)))))) \<and>
   (\<forall>evs g1. call cb c u g = (evs, Returned g1) \<longrightarrow>
      snapshot_name g \<noteq> None \<and> \<not> tb_exited g \<and> g1 = g\<lparr>tb_exited := True\<rparr>) \<and>
   (\<forall>evs g1. run_stoptrigger tr g = (evs, Returned g1) \<longrightarrow>
      (tb_exited g \<longrightarrow> tb_exited g1) \<and> snapshot_name g1 = snapshot_name g)"
proof (intro conjI impI allI)
  assume a: "snapshot_name g = Some name \<and> \<not> tb_exited g"
  then show "exit_icount_reached c u g =
        ([Outs (IcountReached (ucast (GPOINTER_TO_UINT u))), ExitCurrentTb],
         Returned (g\<lparr>tb_exited := True\<rparr>))"
    by (simp add: exit_icount_reached_def)
  from a show "exit_address_reached c u g =
        ([Outs (AddrReached (ucast (GPOINTER_TO_UINT u))), ExitCurrentTb],
         Returned (g\<lparr>tb_exited := True\<rparr>))"
    by (simp add: exit_address_reached_def)
next
  assume a: "snapshot_name g = Some name \<and> tb_exited g"
  then show "exit_icount_reached c u g =
        ([Savevm name, Outs (SnapshotSaved name)], Exited (icount_exit_code g))"
    by (simp add: exit_icount_reached_def exit_emulation_def)
  from a show "exit_address_reached c u g =
        ([Savevm name, Outs (SnapshotSaved name)],
         Exited (lookup_exit_code (addrs_ht g) (GUINT_TO_POINTER (ucast (GPOINTER_TO_UINT u)))))"
    by (simp add: exit_address_reached_def exit_emulation_def)
next
  fix evs g1
  assume "call cb c u g = (evs, Returned g1)"
  from call_cases [OF this]
  show "snapshot_name g \<noteq> None" and "\<not> tb_exited g" and "g1 = g\<lparr>tb_exited := True\<rparr>" by auto
next
  fix evs g1
  assume "run_stoptrigger tr g = (evs, Returned g1)"
  note ro = run_order [OF this, of "tb_exited g"]
  {
    assume "tb_exited g"
    then show "tb_exited g1" using ro by simp
  }
  show "snapshot_name g1 = snapshot_name g" using ro by simp
qed

text \<open>
  \<^verbatim>\<open>icount=3\<close>, \<^verbatim>\<open>addr=0x2000:9\<close> and \<^verbatim>\<open>savevm=snap1\<close>: the address trigger fires first, on
  vCPU 1; after that the count trigger on vCPU 0 saves the snapshot and exits, and so would
  the address trigger.
\<close>

theorem tb_exited_shared_and_never_reset_witness:
  "exit_address_reached 1 0x2000
       (stoptrigger_start\<lparr>icount := 3, exit_on_icount := True, exit_on_address := True,
          addrs_ht := [0x2000 \<mapsto> 9], snapshot_name := Some ''snap1''\<rparr>) =
     ([Outs (AddrReached 0x2000), ExitCurrentTb],
      Returned (stoptrigger_start\<lparr>icount := 3, exit_on_icount := True, exit_on_address := True,
          addrs_ht := [0x2000 \<mapsto> 9], snapshot_name := Some ''snap1'', tb_exited := True\<rparr>)) \<and>
   exit_icount_reached 0 0x100c
       (stoptrigger_start\<lparr>icount := 3, exit_on_icount := True, exit_on_address := True,
          addrs_ht := [0x2000 \<mapsto> 9], snapshot_name := Some ''snap1'', tb_exited := True\<rparr>) =
     ([Savevm ''snap1'', Outs (SnapshotSaved ''snap1'')], Exited 0) \<and>
   exit_address_reached 0 0x2000
       (stoptrigger_start\<lparr>icount := 3, exit_on_icount := True, exit_on_address := True,
          addrs_ht := [0x2000 \<mapsto> 9], snapshot_name := Some ''snap1'', tb_exited := True\<rparr>) =
     ([Savevm ''snap1'', Outs (SnapshotSaved ''snap1'')], Exited 9)"
  using tb_exited_shared_and_never_reset
    [of "stoptrigger_start\<lparr>icount := 3, exit_on_icount := True, exit_on_address := True,
          addrs_ht := [0x2000 \<mapsto> 9], snapshot_name := Some ''snap1''\<rparr>"
        "''snap1''" 1 "0x2000"]
    tb_exited_shared_and_never_reset
    [of "stoptrigger_start\<lparr>icount := 3, exit_on_icount := True, exit_on_address := True,
          addrs_ht := [0x2000 \<mapsto> 9], snapshot_name := Some ''snap1'', tb_exited := True\<rparr>"
        "''snap1''" 0 "0x100c"]
    tb_exited_shared_and_never_reset
    [of "stoptrigger_start\<lparr>icount := 3, exit_on_icount := True, exit_on_address := True,
          addrs_ht := [0x2000 \<mapsto> 9], snapshot_name := Some ''snap1'', tb_exited := True\<rparr>"
        "''snap1''" 0 "0x2000"]
  by (simp add: stoptrigger_start_def GPOINTER_TO_UINT_def GUINT_TO_POINTER_def lookup_exit_code_def)


section \<open>stoptrigger.c: the address trigger\<close>

text \<open>
  For an address that fits 32 bits, such as \<open>0x1000\<close> of \<^verbatim>\<open>addr=0x1000:2\<close>, and with no
  snapshot name configured, the instruction at the trigger address ends the process at once
  with the exit code stored for that address: there is no request to leave the translation
  block.
\<close>

lemma addr_trigger_below_4G:
  assumes "exit_on_address g" and "addrs_ht g a = Some code" and "snapshot_name g = None"
    and "\<not> exit_on_icount g" and "ucast (ucast a :: u32) = a"
  shows "exec_insn c (vcpu_tb_trans_insn g a) g = ([Outs (AddrReached a)], Exited code)"
  using assms
  by (simp add: vcpu_tb_trans_insn_def call_def exit_address_reached_def
        exit_emulation_def GPOINTER_TO_UINT_def GUINT_TO_POINTER_def lookup_exit_code_def)

lemma addr_trigger_example:
  "qemu_plugin_install_stoptrigger [''addr=0x1000:2''] =
     Inr \<lparr>ret = 0, printed = [], registered = [VcpuTbTransCb, AtexitCb],
          globals = stoptrigger_start\<lparr>exit_on_address := True, addrs_ht := [0x1000 \<mapsto> 2]\<rparr>\<rparr> \<and>
   run_stoptrigger [(0, 0x1000)]
       (stoptrigger_start\<lparr>exit_on_address := True, addrs_ht := [0x1000 \<mapsto> 2]\<rparr>) =
     ([Outs (AddrReached 0x1000)], Exited 2)"
  by (simp add: install_defs vcpu_tb_trans_insn_def call_def exit_address_reached_def
        exit_emulation_def GPOINTER_TO_UINT_def lookup_exit_code_def)

text \<open>
  Claim C5. With an address trigger and no snapshot name, the instruction at the trigger
  address ends the process at once, without a request to leave the translation block, and
  the exit code is the one configured for that address. The last part fails for an address
  of more than 32 bits. \<^verbatim>\<open>vcpu_tb_trans\<close> looks the address up as a 64-bit pointer, so the
  callback is attached; \<^verbatim>\<open>exit_address_reached\<close> gets the address back through
  \<^verbatim>\<open>GPOINTER_TO_UINT\<close>, which keeps 32 bits, and looks up the truncated address. With
  \<^verbatim>\<open>addr=0x100001000:2\<close> the instruction at \<open>0x100001000\<close> ends the process with exit code
  0 (and reports \<open>0x1000\<close>), not 2.
\<close>

theorem addr_trigger_exit_code_above_4G:
  "qemu_plugin_install_stoptrigger [''addr=0x100001000:2''] =
     Inr \<lparr>ret = 0, printed = [], registered = [VcpuTbTransCb, AtexitCb],
          globals = stoptrigger_start\<lparr>exit_on_address := True, addrs_ht := [0x100001000 \<mapsto> 2]\<rparr>\<rparr> \<and>
   run_stoptrigger [(0, 0x100001000)]
       (stoptrigger_start\<lparr>exit_on_address := True, addrs_ht := [0x100001000 \<mapsto> 2]\<rparr>) =
     ([Outs (AddrReached 0x1000)], Exited 0)"
  by (simp add: install_defs vcpu_tb_trans_insn_def call_def exit_address_reached_def
        exit_emulation_def GPOINTER_TO_UINT_def lookup_exit_code_def)

section \<open>stoptrigger.c: what the installation refuses\<close>

lemma g_strrstr_char: "g_strrstr t [c] = None \<longleftrightarrow> c \<notin> set t"
  by (induction t) (auto split: option.splits)

lemma install_arg_other_key:
  assumes "key_of opt \<noteq> Some ''icount''" and "key_of opt \<noteq> Some ''addr''"
  shows "\<exists>e g'. install_arg opt g = Inr (e, g') \<and> exit_on_icount g' = exit_on_icount g
            \<and> exit_on_address g' = exit_on_address g"
  using assms by (auto simp: install_arg_def key_of_def g_strsplit_def split: option.splits)

lemma install_args_other_keys:
  assumes "\<forall>opt\<in>set argv. key_of opt \<noteq> Some ''icount'' \<and> key_of opt \<noteq> Some ''addr''"
  shows "\<exists>e g'. install_args argv g = Inr (e, g') \<and> exit_on_icount g' = exit_on_icount g
            \<and> exit_on_address g' = exit_on_address g"
  using assms
proof (induction argv arbitrary: g)
  case Nil
  then show ?case by simp
next
  case (Cons opt argv)
  then have k: "key_of opt \<noteq> Some ''icount''" "key_of opt \<noteq> Some ''addr''" by auto
  from install_arg_other_key [OF k, of g] obtain e g1 where
    a: "install_arg opt g = Inr (e, g1)" and f: "exit_on_icount g1 = exit_on_icount g"
      "exit_on_address g1 = exit_on_address g" by blast
  show ?case
  proof (cases e)
    case None
    from Cons.IH [of g1] Cons.prems obtain e' g' where
      "install_args argv g1 = Inr (e', g')" "exit_on_icount g' = exit_on_icount g1"
      "exit_on_address g' = exit_on_address g1" by auto
    with a None f show ?thesis by simp
  next
    case (Some l)
    with a f show ?thesis by simp
  qed
qed

lemma install_arg_unknown_key:
  assumes "key_of opt \<noteq> Some ''icount''" and "key_of opt \<noteq> Some ''addr''"
    and "key_of opt \<noteq> Some ''savevm''"
  shows "install_arg opt g = Inr (Some (OptionParsingFailed opt), g)"
  using assms by (simp add: install_arg_def key_of_def g_strsplit_def split: option.splits)

lemma install_arg_bad_count:
  assumes k: "key_of opt = Some ''icount''"
    and bad: "g_ascii_strtoull (count_token opt) 0 = 0
       \<or> (case count_token opt of None \<Rightarrow> False | Some t \<Rightarrow> CHR ''-'' \<in> set t)"
  shows "install_arg opt g \<noteq> Inr (None, g')"
proof -
  obtain tokens where t: "g_strsplit (Some opt) CHR ''='' = Some tokens"
    by (simp add: g_strsplit_def)
  with k have t0: "strv tokens 0 = Some ''icount''" by (simp add: key_of_def)
  show ?thesis
  proof (cases "g_strsplit (strv tokens 1) CHR '':''")
    case None
    with t t0 show ?thesis by (simp add: install_arg_def)
  next
    case (Some icount_tokens)
    with t have ct: "count_token opt = strv icount_tokens 0" by (simp add: count_token_def)
    have "g_ascii_strtoull (strv icount_tokens 0) 0 < 1
       \<or> (case strv icount_tokens 0 of None \<Rightarrow> False | Some t \<Rightarrow> g_strrstr t ''-'' \<noteq> None)"
      using bad ct by (auto simp: g_strrstr_char split: option.splits)
    then show ?thesis using t t0 Some by (simp add: install_arg_def Let_def)
  qed
qed

lemma install_arg_refused:
  assumes "refused opt"
  shows "install_arg opt g \<noteq> Inr (None, g')"
  using assms install_arg_unknown_key [of opt g] install_arg_bad_count [of opt g g']
  by (auto simp: refused_def)

lemma install_args_refused:
  assumes "\<exists>opt\<in>set argv. refused opt"
  shows "install_args argv g \<noteq> Inr (None, g')"
  using assms
proof (induction argv arbitrary: g)
  case Nil
  then show ?case by simp
next
  case (Cons opt argv)
  show ?case
  proof (cases "install_arg opt g")
    case (Inl f)
    then show ?thesis by simp
  next
    case (Inr p)
    obtain e g1 where p: "p = (e, g1)" by (cases p)
    show ?thesis
    proof (cases e)
      case (Some l)
      with Inr p show ?thesis by simp
    next
      case None
      with Inr p have "install_arg opt g = Inr (None, g1)" by simp
      with install_arg_refused [of opt g g1] have "\<not> refused opt" by blast
      with Cons.prems have "\<exists>opt\<in>set argv. refused opt" by simp
      from Cons.IH [OF this, of g1] Inr p None show ?thesis by simp
    qed
  qed
qed

lemma install_arg_has_value:
  assumes "has_value opt"
  shows "\<exists>e g'. install_arg opt g = Inr (e, g')"
  using assms
  by (auto simp: has_value_def install_arg_def g_strsplit_def strv_def Let_def
           split: option.splits if_splits)

lemma install_args_have_values:
  assumes "\<forall>opt\<in>set argv. has_value opt"
  shows "\<exists>e g'. install_args argv g = Inr (e, g')"
  using assms
proof (induction argv arbitrary: g)
  case Nil
  then show ?case by simp
next
  case (Cons opt argv)
  then have "has_value opt" by simp
  from install_arg_has_value [OF this, of g] obtain e g1 where
    a: "install_arg opt g = Inr (e, g1)" by blast
  show ?case
  proof (cases e)
    case None
    with a Cons show ?thesis by simp
  next
    case (Some l)
    with a show ?thesis by simp
  qed
qed

text \<open>
  Claim C6, as amended. \<^verbatim>\<open>qemu_plugin_install\<close> returns \<open>-1\<close>, having printed one line
  on standard error and registered nothing, when no argument has the key \<^verbatim>\<open>icount\<close> or
  \<^verbatim>\<open>addr\<close>. It does not return 0 when an argument has a key other than \<^verbatim>\<open>icount\<close>,
  \<^verbatim>\<open>addr\<close> and \<^verbatim>\<open>savevm\<close>, or is an \<^verbatim>\<open>icount\<close> whose count converts to zero or contains
  a \<^verbatim>\<open>-\<close>. Whenever it returns, it returns 0 with both callbacks registered and nothing
  printed, or \<open>-1\<close> with one line printed and nothing registered; and it does return when
  every argument is a key, \<^verbatim>\<open>=\<close> and a value that is not empty.
\<close>

theorem install_fails_on_bad_configuration:
  "((\<forall>opt\<in>set argv. key_of opt \<noteq> Some ''icount'' \<and> key_of opt \<noteq> Some ''addr'') \<longrightarrow>
      (\<exists>l g. qemu_plugin_install_stoptrigger argv =
         Inr \<lparr>ret = - 1, printed = [l], registered = [], globals = g\<rparr>)) \<and>
   ((\<exists>opt\<in>set argv. refused opt) \<longrightarrow>
      (\<forall>r. qemu_plugin_install_stoptrigger argv = Inr r \<longrightarrow> ret r = - 1)) \<and>
   (\<forall>r. qemu_plugin_install_stoptrigger argv = Inr r \<longrightarrow>
      (ret r = - 1 \<and> length (printed r) = 1 \<and> registered r = []) \<or>
      (ret r = 0 \<and> printed r = [] \<and> registered r = [VcpuTbTransCb, AtexitCb])) \<and>
   ((\<forall>opt\<in>set argv. has_value opt) \<longrightarrow> (\<exists>r. qemu_plugin_install_stoptrigger argv = Inr r))"
proof (intro conjI impI allI)
  assume "\<forall>opt\<in>set argv. key_of opt \<noteq> Some ''icount'' \<and> key_of opt \<noteq> Some ''addr''"
  from install_args_other_keys [OF this, of stoptrigger_start] obtain e g' where
    a: "install_args argv stoptrigger_start = Inr (e, g')"
    and f: "\<not> exit_on_icount g'" "\<not> exit_on_address g'"
    by (auto simp: stoptrigger_start_def)
  show "\<exists>l g. qemu_plugin_install_stoptrigger argv =
         Inr \<lparr>ret = - 1, printed = [l], registered = [], globals = g\<rparr>"
    using a f by (cases e) (simp_all add: qemu_plugin_install_stoptrigger_def)
next
  fix r
  assume "\<exists>opt\<in>set argv. refused opt" and r: "qemu_plugin_install_stoptrigger argv = Inr r"
  from install_args_refused [OF this(1), of stoptrigger_start]
  have "\<And>g'. install_args argv stoptrigger_start \<noteq> Inr (None, g')" .
  with r show "ret r = - 1"
    by (auto simp: qemu_plugin_install_stoptrigger_def split: sum.splits prod.splits option.splits)
next
  fix r
  assume "qemu_plugin_install_stoptrigger argv = Inr r"
  then show "(ret r = - 1 \<and> length (printed r) = 1 \<and> registered r = []) \<or>
      (ret r = 0 \<and> printed r = [] \<and> registered r = [VcpuTbTransCb, AtexitCb])"
    by (auto simp: qemu_plugin_install_stoptrigger_def
          split: sum.splits prod.splits option.splits if_splits)
next
  assume "\<forall>opt\<in>set argv. has_value opt"
  from install_args_have_values [OF this, of stoptrigger_start] obtain e g' where
    "install_args argv stoptrigger_start = Inr (e, g')" by blast
  then show "\<exists>r. qemu_plugin_install_stoptrigger argv = Inr r"
    by (cases e) (simp_all add: qemu_plugin_install_stoptrigger_def)
qed

text \<open>
  \<^verbatim>\<open>savevm=snap1\<close> alone, \<^verbatim>\<open>icount=-1\<close>, \<^verbatim>\<open>icount=0\<close>, and an unknown key after a valid
  \<^verbatim>\<open>addr\<close>: each returns \<open>-1\<close> with its line.
\<close>

theorem install_fails_on_bad_configuration_witness:
  "qemu_plugin_install_stoptrigger [''savevm=snap1''] =
     Inr \<lparr>ret = - 1, printed = [ArgumentMissing], registered = [],
          globals = stoptrigger_start\<lparr>snapshot_name := Some ''snap1''\<rparr>\<rparr> \<and>
   refused ''icount=-1'' \<and> has_value ''icount=-1'' \<and>
   qemu_plugin_install_stoptrigger [''icount=-1''] =
     Inr \<lparr>ret = - 1, printed = [IcountParsingFailed (Some ''-1'')], registered = [],
          globals = stoptrigger_start\<lparr>icount := - 1\<rparr>\<rparr> \<and>
   refused ''icount=0'' \<and>
   qemu_plugin_install_stoptrigger [''icount=0''] =
     Inr \<lparr>ret = - 1, printed = [IcountParsingFailed (Some ''0'')], registered = [],
          globals = stoptrigger_start\<rparr> \<and>
   refused ''bogus=1'' \<and>
   qemu_plugin_install_stoptrigger [''addr=0x1000'', ''bogus=1''] =
     Inr \<lparr>ret = - 1, printed = [OptionParsingFailed ''bogus=1''], registered = [],
          globals = stoptrigger_start\<lparr>exit_on_address := True, addrs_ht := [0x1000 \<mapsto> 0]\<rparr>\<rparr>"
proof -
  have r1: "refused ''icount=-1''"
    by (simp add: refused_def key_of_def count_token_def g_strsplit_def strv_def)
  have r2: "refused ''icount=0''"
    by (simp add: refused_def key_of_def count_token_def g_strsplit_def strv_def
          g_ascii_strtoull_def ISSPACE_def digit_value_def Let_def)
  have r3: "refused ''bogus=1''"
    by (simp add: refused_def key_of_def g_strsplit_def strv_def)
  have h1: "has_value ''icount=-1''"
    by (simp add: has_value_def)
  have w1: "\<exists>l g. qemu_plugin_install_stoptrigger [''savevm=snap1''] =
         Inr \<lparr>ret = - 1, printed = [l], registered = [], globals = g\<rparr>"
    using install_fails_on_bad_configuration [of "[''savevm=snap1'']", THEN conjunct1]
    by (simp add: key_of_def g_strsplit_def strv_def)
  have w2: "\<forall>r. qemu_plugin_install_stoptrigger [''icount=-1''] = Inr r \<longrightarrow> ret r = - 1"
    using install_fails_on_bad_configuration [of "[''icount=-1'']", THEN conjunct2, THEN conjunct1] r1
    by simp
  have w3: "\<forall>r. qemu_plugin_install_stoptrigger [''icount=0''] = Inr r \<longrightarrow> ret r = - 1"
    using install_fails_on_bad_configuration [of "[''icount=0'']", THEN conjunct2, THEN conjunct1] r2
    by simp
  have w4: "\<forall>r. qemu_plugin_install_stoptrigger [''addr=0x1000'', ''bogus=1''] = Inr r \<longrightarrow> ret r = - 1"
    using install_fails_on_bad_configuration
            [of "[''addr=0x1000'', ''bogus=1'']", THEN conjunct2, THEN conjunct1] r3
    by simp
  have w5: "\<exists>r. qemu_plugin_install_stoptrigger [''icount=-1''] = Inr r"
    using install_fails_on_bad_configuration
            [of "[''icount=-1'']", THEN conjunct2, THEN conjunct2, THEN conjunct2] h1
    by simp
  have a1: "qemu_plugin_install_stoptrigger [''savevm=snap1''] =
     Inr \<lparr>ret = - 1, printed = [ArgumentMissing], registered = [],
          globals = stoptrigger_start\<lparr>snapshot_name := Some ''snap1''\<rparr>\<rparr>"
    using w1 by (simp add: install_defs)
  have a2: "qemu_plugin_install_stoptrigger [''icount=-1''] =
     Inr \<lparr>ret = - 1, printed = [IcountParsingFailed (Some ''-1'')], registered = [],
          globals = stoptrigger_start\<lparr>icount := - 1\<rparr>\<rparr>"
    using w2 w5 by (simp add: install_defs)
  have a3: "qemu_plugin_install_stoptrigger [''icount=0''] =
     Inr \<lparr>ret = - 1, printed = [IcountParsingFailed (Some ''0'')], registered = [],
          globals = stoptrigger_start\<rparr>"
    using w3 by (simp add: install_defs)
  have a4: "qemu_plugin_install_stoptrigger [''addr=0x1000'', ''bogus=1''] =
     Inr \<lparr>ret = - 1, printed = [OptionParsingFailed ''bogus=1''], registered = [],
          globals = stoptrigger_start\<lparr>exit_on_address := True, addrs_ht := [0x1000 \<mapsto> 0]\<rparr>\<rparr>"
    using w4 by (simp add: install_defs)
  show ?thesis
    by (intro conjI) (rule a1 r1 h1 a2 r2 a3 r3 a4)+
qed

text \<open>
  Claim C6 as stated fails where it says that a malformed number makes setup fail: an
  address that is no number at all, and a count and an exit code followed by other
  characters, are accepted, and setup returns 0 with the callbacks registered.
\<close>

theorem install_accepts_malformed_numbers:
  "qemu_plugin_install_stoptrigger [''addr=zzz''] =
     Inr \<lparr>ret = 0, printed = [], registered = [VcpuTbTransCb, AtexitCb],
          globals = stoptrigger_start\<lparr>exit_on_address := True, addrs_ht := [0 \<mapsto> 0]\<rparr>\<rparr> \<and>
   qemu_plugin_install_stoptrigger [''icount=5abc:7x''] =
     Inr \<lparr>ret = 0, printed = [], registered = [VcpuTbTransCb, AtexitCb],
          globals = stoptrigger_start\<lparr>icount := 5, icount_exit_code := 7, exit_on_icount := True\<rparr>\<rparr>"
  by (simp add: install_defs)

section \<open>sca_hw.c: the table and the loop over the registers\<close>

lemma hw_table_nat: "\<forall>n\<in>{0..<256}. HAMMING_WEIGHT ! n = popcount (of_nat n)"
  by code_simp

lemma hw_table: "HAMMING_WEIGHT ! unat (b :: u8) = popcount b"
proof -
  have "unat b < 256" using unsigned_less [of b] by simp
  then have "HAMMING_WEIGHT ! unat b = popcount (of_nat (unat b))"
    using hw_table_nat by simp
  then show ?thesis by simp
qed

lemma fold_table:
  "fold (\<lambda>b l. l + of_nat (HAMMING_WEIGHT ! unat b)) bs (l :: u64)
     = l + of_nat (sum_list (map popcount bs))"
  by (induction bs arbitrary: l) (simp_all add: hw_table)

lemma fold_table_rev:
  "fold (\<lambda>b l. l + of_nat (HAMMING_WEIGHT ! unat b)) (rev bs) (l :: u64)
     = l + of_nat (sum_list (map popcount bs))"
proof -
  have "sum_list (map popcount (rev bs)) = sum_list (map popcount bs)"
    by (simp add: rev_map [symmetric])
  then show ?thesis by (simp add: fold_table)
qed

lemma bufs_Cons: "bufs (reg # regs) = last_buf reg # map last_buf regs @ new_buf reg # map new_buf regs"
  by (simp add: bufs_def)

lemma distinct_bufs_Cons:
  assumes "distinct (bufs (reg # regs))"
  shows "distinct (bufs regs)" and "last_buf reg \<noteq> new_buf reg"
    and "\<forall>r\<in>set regs. last_buf r \<noteq> new_buf reg \<and> new_buf r \<noteq> new_buf reg
           \<and> last_buf r \<noteq> last_buf reg \<and> new_buf r \<noteq> last_buf reg"
  using assms by (auto simp: bufs_def image_iff)

lemma read_all_other: "a \<notin> new_buf ` set regs \<Longrightarrow> read_all rf regs h a = h a"
  unfolding read_all_def by (induction regs arbitrary: h) auto

lemma hw_regs_ok:
  assumes "distinct (bufs regs)"
    and "\<forall>reg\<in>set regs. length (rf (handle reg)) = length (h (last_buf reg))"
  shows "hw_regs rf regs l h =
           Inr (l + of_nat (sum_list (map (contribution rf h) regs)),
                map (swapped rf h) regs, read_all rf regs h)"
  using assms
proof (induction regs arbitrary: l h)
  case Nil
  then show ?case by (simp add: read_all_def)
next
  case (Cons reg regs)
  note d = distinct_bufs_Cons [OF Cons.prems(1)]
  let ?h2 = "h(new_buf reg := rf (handle reg))"
  have sz: "length (rf (handle reg)) = length (h (last_buf reg))" using Cons.prems(2) by simp
  have same: "\<forall>r\<in>set regs. ?h2 (last_buf r) = h (last_buf r)" using d(3) by simp
  have len: "\<forall>r\<in>set regs. length (rf (handle r)) = length (?h2 (last_buf r))"
    using Cons.prems(2) same by simp
  have c: "map (contribution rf ?h2) regs = map (contribution rf h) regs"
    using same by (simp add: contribution_def)
  have s: "map (swapped rf ?h2) regs = map (swapped rf h) regs"
    using same by (simp add: swapped_def)
  have ih: "hw_regs rf regs l' ?h2 =
      Inr (l' + of_nat (sum_list (map (contribution rf h) regs)),
           map (swapped rf h) regs, read_all rf regs ?h2)" for l'
    using Cons.IH [OF d(1) len, of l'] unfolding c s .
  have r: "read_all rf (reg # regs) h = read_all rf regs ?h2" by (simp add: read_all_def)
  show ?case
  proof (cases "rf (handle reg) = h (last_buf reg)")
    case True
    then have "contribution rf h reg = 0" and "swapped rf h reg = reg"
      by (simp_all add: contribution_def swapped_def)
    then show ?thesis using True d(2) sz ih r
      by (simp add: g_byte_array_set_size_def qemu_plugin_read_register_def Let_def)
  next
    case False
    then have "contribution rf h reg = sum_list (map popcount (rf (handle reg)))"
      and "swapped rf h reg = reg\<lparr>last_buf := new_buf reg, new_buf := last_buf reg\<rparr>"
      by (simp_all add: contribution_def swapped_def)
    moreover from False have "h (last_buf reg) \<noteq> rf (handle reg)" by simp
    ultimately show ?thesis using d(2) sz ih r
      by (simp add: g_byte_array_set_size_def qemu_plugin_read_register_def fold_table_rev
            add.assoc Let_def)
  qed
qed

lemma hw_regs_fail:
  assumes "distinct (bufs regs)"
    and "\<exists>reg\<in>set regs. length (rf (handle reg)) \<noteq> length (h (last_buf reg))"
  shows "hw_regs rf regs l h = Inl AssertFailed"
  using assms
proof (induction regs arbitrary: l h)
  case Nil
  then show ?case by simp
next
  case (Cons reg regs)
  note d = distinct_bufs_Cons [OF Cons.prems(1)]
  let ?h2 = "h(new_buf reg := rf (handle reg))"
  show ?case
  proof (cases "length (rf (handle reg)) = length (h (last_buf reg))")
    case False
    then show ?thesis using d(2)
      by (simp add: g_byte_array_set_size_def qemu_plugin_read_register_def Let_def)
  next
    case True
    with Cons.prems(2) have "\<exists>r\<in>set regs. length (rf (handle r)) \<noteq> length (h (last_buf r))"
      by auto
    moreover have "\<forall>r\<in>set regs. ?h2 (last_buf r) = h (last_buf r)" using d(3) by simp
    ultimately have "\<exists>r\<in>set regs. length (rf (handle r)) \<noteq> length (?h2 (last_buf r))" by auto
    from Cons.IH [OF d(1) this] have "\<And>l'. hw_regs rf regs l' ?h2 = Inl AssertFailed" .
    then show ?thesis using True d(2)
      by (simp add: g_byte_array_set_size_def qemu_plugin_read_register_def Let_def)
  qed
qed

lemma read_all_new:
  assumes "distinct (map new_buf regs)" and "r \<in> set regs"
  shows "read_all rf regs h (new_buf r) = rf (handle r)"
  using assms
proof (induction regs arbitrary: h)
  case Nil
  then show ?case by simp
next
  case (Cons reg regs)
  have step: "read_all rf (reg # regs) h = read_all rf regs (h(new_buf reg := rf (handle reg)))"
    by (simp add: read_all_def)
  show ?case
  proof (cases "r \<in> set regs")
    case True
    with Cons show ?thesis by (simp add: step)
  next
    case False
    with Cons.prems have "r = reg" by simp
    moreover have "new_buf reg \<notin> new_buf ` set regs" using Cons.prems(1) by simp
    ultimately show ?thesis by (simp add: step read_all_other)
  qed
qed

lemma distinct_bufs_iff:
  "distinct (bufs (r # rs)) \<longleftrightarrow>
     last_buf r \<noteq> new_buf r \<and> last_buf r \<notin> set (bufs rs) \<and> new_buf r \<notin> set (bufs rs)
     \<and> distinct (bufs rs)"
  by (auto simp: bufs_def)

lemma set_bufs_swapped: "set (bufs (map (swapped rf h) rs)) = set (bufs rs)"
  by (induction rs) (auto simp: bufs_def swapped_def)

lemma distinct_bufs_swapped:
  "distinct (bufs rs) \<Longrightarrow> distinct (bufs (map (swapped rf h) rs))"
proof (induction rs)
  case Nil
  then show ?case by simp
next
  case (Cons r rs)
  from Cons.prems have d: "last_buf r \<noteq> new_buf r" "last_buf r \<notin> set (bufs rs)"
    "new_buf r \<notin> set (bufs rs)" "distinct (bufs rs)"
    by (simp_all add: distinct_bufs_iff)
  have sw: "(last_buf (swapped rf h r) = last_buf r \<and> new_buf (swapped rf h r) = new_buf r)
      \<or> (last_buf (swapped rf h r) = new_buf r \<and> new_buf (swapped rf h r) = last_buf r)"
    by (simp add: swapped_def)
  have ih: "distinct (bufs (map (swapped rf h) rs))" using d(4) by (rule Cons.IH)
  have "distinct (bufs (swapped rf h r # map (swapped rf h) rs))"
    unfolding distinct_bufs_iff set_bufs_swapped
    using d ih sw by auto
  then show ?case by simp
qed

lemma distinct_bufs_parts:
  assumes "distinct (bufs regs)"
  shows "distinct (map new_buf regs)" and "distinct (map last_buf regs)"
    and "\<forall>r\<in>set regs. last_buf r \<notin> new_buf ` set regs"
  using assms by (auto simp: bufs_def)

lemma handle_swapped: "handle (swapped rf h r) = handle r"
  by (simp add: swapped_def)

text \<open>What the loop leaves for one register.\<close>

lemma after_loop_register:
  assumes d: "distinct (bufs regs)" and r: "r \<in> set regs"
  shows "rf (handle r) \<noteq> h (last_buf r) \<Longrightarrow>
           last_buf (swapped rf h r) = new_buf r \<and> new_buf (swapped rf h r) = last_buf r
           \<and> read_all rf regs h (last_buf (swapped rf h r)) = rf (handle r)
           \<and> read_all rf regs h (new_buf (swapped rf h r)) = h (last_buf r)"
    and "rf (handle r) = h (last_buf r) \<Longrightarrow>
           swapped rf h r = r
           \<and> read_all rf regs h (last_buf r) = h (last_buf r)
           \<and> read_all rf regs h (new_buf r) = rf (handle r)"
proof -
  note p = distinct_bufs_parts [OF d]
  have n: "read_all rf regs h (new_buf r) = rf (handle r)"
    using p(1) r by (rule read_all_new)
  have l: "read_all rf regs h (last_buf r) = h (last_buf r)"
    using p(3) r by (simp add: read_all_other)
  show "rf (handle r) \<noteq> h (last_buf r) \<Longrightarrow>
           last_buf (swapped rf h r) = new_buf r \<and> new_buf (swapped rf h r) = last_buf r
           \<and> read_all rf regs h (last_buf (swapped rf h r)) = rf (handle r)
           \<and> read_all rf regs h (new_buf (swapped rf h r)) = h (last_buf r)"
    using n l by (simp add: swapped_def)
  show "rf (handle r) = h (last_buf r) \<Longrightarrow>
           swapped rf h r = r
           \<and> read_all rf regs h (last_buf r) = h (last_buf r)
           \<and> read_all rf regs h (new_buf r) = rf (handle r)"
    using n l by (simp add: swapped_def)
qed

lemma after_loop_lengths:
  assumes d: "distinct (bufs regs)" and r: "r \<in> set regs"
    and len: "length (rf (handle r)) = length (h (last_buf r))"
  shows "length (read_all rf regs h (last_buf (swapped rf h r))) = length (h (last_buf r))"
    and "length (read_all rf regs h (new_buf (swapped rf h r))) = length (h (last_buf r))"
  using after_loop_register [OF d r, of rf h] len
  by (cases "rf (handle r) = h (last_buf r)"; simp)+

section \<open>sca_hw.c: the leakage returned\<close>

lemma compute_ok:
  assumes "registers cpu = Some regs" and "distinct (bufs regs)"
    and "\<forall>reg\<in>set regs. length (rf (handle reg)) = length (h (last_buf reg))"
  shows "compute_hw_reg_leakage rf cpu h =
           Inr (of_nat (sum_list (map (contribution rf h) regs)),
                cpu\<lparr>registers := Some (map (swapped rf h) regs)\<rparr>, read_all rf regs h)"
  using assms(1) hw_regs_ok [OF assms(2,3), of 0]
  by (simp add: compute_hw_reg_leakage_def)

lemma compute_fail:
  assumes "registers cpu = Some regs" and "distinct (bufs regs)"
    and "\<exists>reg\<in>set regs. length (rf (handle reg)) \<noteq> length (h (last_buf reg))"
  shows "compute_hw_reg_leakage rf cpu h = Inl AssertFailed"
  using assms(1) hw_regs_fail [OF assms(2,3), of 0]
  by (simp add: compute_hw_reg_leakage_def)

text \<open>
  Claim C1. \<^verbatim>\<open>compute_hw_reg_leakage\<close> returns the sum, over the tracked registers, of
  their contributions: a register whose newly read bytes differ from the stored ones
  contributes the sum of the population counts of the bytes of the new value, and a
  register whose bytes are the same contributes 0. The function returns exactly when every
  read has the length of the stored value (the assertion); the total is a \<^verbatim>\<open>uint64_t\<close>,
  so it is the sum modulo \<open>2 ^ 64\<close>, and the sum itself when that is below \<open>2 ^ 64\<close>.
  The registers own their byte arrays: no two of the pointers \<^verbatim>\<open>last\<close> and \<^verbatim>\<open>new\<close> of
  the vCPU are equal, as \<^verbatim>\<open>registers_init\<close> makes them.
\<close>

theorem leakage_is_sum_of_contributions:
  assumes "registers cpu = Some regs" and "distinct (bufs regs)"
  shows "((\<forall>reg\<in>set regs. length (rf (handle reg)) = length (h (last_buf reg))) \<longrightarrow>
            (\<exists>cpu' h'. compute_hw_reg_leakage rf cpu h =
               Inr (of_nat (sum_list (map (contribution rf h) regs)), cpu', h'))) \<and>
         (\<forall>l cpu' h'. compute_hw_reg_leakage rf cpu h = Inr (l, cpu', h') \<longrightarrow>
            l = of_nat (sum_list (map (contribution rf h) regs)) \<and>
            (sum_list (map (contribution rf h) regs) < 2 ^ 64 \<longrightarrow>
               unat l = sum_list (map (contribution rf h) regs))) \<and>
         (\<forall>reg\<in>set regs.
            (rf (handle reg) \<noteq> h (last_buf reg) \<longrightarrow>
               contribution rf h reg = sum_list (map popcount (rf (handle reg)))) \<and>
            (rf (handle reg) = h (last_buf reg) \<longrightarrow> contribution rf h reg = 0))"
proof (intro conjI impI allI ballI)
  assume "\<forall>reg\<in>set regs. length (rf (handle reg)) = length (h (last_buf reg))"
  from compute_ok [OF assms this]
  show "\<exists>cpu' h'. compute_hw_reg_leakage rf cpu h =
               Inr (of_nat (sum_list (map (contribution rf h) regs)), cpu', h')"
    by blast
next
  fix l cpu' h'
  assume ret: "compute_hw_reg_leakage rf cpu h = Inr (l, cpu', h')"
  have ok: "\<forall>reg\<in>set regs. length (rf (handle reg)) = length (h (last_buf reg))"
  proof (rule ccontr)
    assume "\<not> ?thesis"
    then have "\<exists>reg\<in>set regs. length (rf (handle reg)) \<noteq> length (h (last_buf reg))" by simp
    from compute_fail [OF assms this] ret show False by simp
  qed
  from compute_ok [OF assms ok] ret
  show l: "l = of_nat (sum_list (map (contribution rf h) regs))" by simp
  {
    assume "sum_list (map (contribution rf h) regs) < 2 ^ 64"
    then show "unat l = sum_list (map (contribution rf h) regs)"
      unfolding l by (simp add: unat_of_nat)
  }
next
  fix reg :: Register
  assume "rf (handle reg) \<noteq> h (last_buf reg)"
  then show "contribution rf h reg = sum_list (map popcount (rf (handle reg)))"
    by (simp add: contribution_def)
next
  fix reg :: Register
  assume "rf (handle reg) = h (last_buf reg)"
  then show "contribution rf h reg = 0"
    by (simp add: contribution_def)
qed


text \<open>
  Three registers of one byte: \<open>0x00\<close> becomes \<open>0xFF\<close> and adds 8, \<open>0x00\<close> becomes
  \<open>0x0F\<close> and adds 4, \<open>0x55\<close> stays and adds nothing; the total is 12.
\<close>

theorem leakage_is_sum_of_contributions_witness:
  "contribution ((\<lambda>x. [])(0 := [0xFF], 1 := [0x0F], 2 := [0x55]))
       ((\<lambda>a. [])(0 := [0x00], 2 := [0x00], 4 := [0x55]))
       \<lparr>handle = 0, last_buf = 0, new_buf = 1\<rparr> = 8 \<and>
   contribution ((\<lambda>x. [])(0 := [0xFF], 1 := [0x0F], 2 := [0x55]))
       ((\<lambda>a. [])(0 := [0x00], 2 := [0x00], 4 := [0x55]))
       \<lparr>handle = 1, last_buf = 2, new_buf = 3\<rparr> = 4 \<and>
   contribution ((\<lambda>x. [])(0 := [0xFF], 1 := [0x0F], 2 := [0x55]))
       ((\<lambda>a. [])(0 := [0x00], 2 := [0x00], 4 := [0x55]))
       \<lparr>handle = 2, last_buf = 4, new_buf = 5\<rparr> = 0 \<and>
   map_sum id fst
     (compute_hw_reg_leakage ((\<lambda>x. [])(0 := [0xFF], 1 := [0x0F], 2 := [0x55]))
        \<lparr>last_cpu_index = 0,
           registers = Some [\<lparr>handle = 0, last_buf = 0, new_buf = 1\<rparr>,
                             \<lparr>handle = 1, last_buf = 2, new_buf = 3\<rparr>,
                             \<lparr>handle = 2, last_buf = 4, new_buf = 5\<rparr>]\<rparr>
        ((\<lambda>a. [])(0 := [0x00], 2 := [0x00], 4 := [0x55]))) = Inr 12"
proof -
  let ?rf = "(\<lambda>x. [])(0 := [0xFF], 1 := [0x0F], 2 := [0x55 :: u8]) :: handle \<Rightarrow> u8 list"
  let ?h = "(\<lambda>a. [])(0 := [0x00], 2 := [0x00], 4 := [0x55 :: u8]) :: heap"
  let ?r0 = "\<lparr>handle = 0, last_buf = 0, new_buf = 1\<rparr>"
  let ?r1 = "\<lparr>handle = 1, last_buf = 2, new_buf = 3\<rparr>"
  let ?r2 = "\<lparr>handle = 2, last_buf = 4, new_buf = 5\<rparr>"
  let ?regs = "[?r0, ?r1, ?r2]"
  let ?cpu = "\<lparr>last_cpu_index = 0, registers = Some ?regs\<rparr>"
  have pc: "popcount 0xFF = 8" "popcount 0x0F = 4" by code_simp+
  have r: "registers ?cpu = Some ?regs" by simp
  have d: "distinct (bufs ?regs)" by (simp add: bufs_def)
  have len: "\<forall>reg\<in>set ?regs. length (?rf (handle reg)) = length (?h (last_buf reg))" by simp
  note t = leakage_is_sum_of_contributions [OF r d, of ?rf ?h]
  from t have each: "\<forall>reg\<in>set ?regs.
            (?rf (handle reg) \<noteq> ?h (last_buf reg) \<longrightarrow>
               contribution ?rf ?h reg = sum_list (map popcount (?rf (handle reg)))) \<and>
            (?rf (handle reg) = ?h (last_buf reg) \<longrightarrow> contribution ?rf ?h reg = 0)"
    by blast
  from each have c0: "contribution ?rf ?h ?r0 = 8" by (simp add: pc)
  from each have c1: "contribution ?rf ?h ?r1 = 4" by (simp add: pc)
  from each have c2: "contribution ?rf ?h ?r2 = 0" by simp
  have tot: "sum_list (map (contribution ?rf ?h) ?regs) = 12" using c0 c1 c2 by simp
  from t len obtain cpu' h' where
    "compute_hw_reg_leakage ?rf ?cpu ?h =
       Inr (of_nat (sum_list (map (contribution ?rf ?h) ?regs)), cpu', h')"
    by blast
  then have "map_sum id fst (compute_hw_reg_leakage ?rf ?cpu ?h) = Inr 12"
    unfolding tot by simp
  with c0 c1 c2 show ?thesis by blast
qed

section \<open>sca_hw.c: the two byte arrays of a register\<close>

text \<open>
  Claim C7. In a diff (\<^verbatim>\<open>compute_hw_reg_leakage\<close>), every register is read into its
  scratch array \<^verbatim>\<open>new\<close> and compared with \<^verbatim>\<open>last\<close>. If the bytes differ, the two
  pointers are exchanged: \<^verbatim>\<open>last\<close> now points to the array with the new value, \<^verbatim>\<open>new\<close>
  to the array that held the previous value, and that array still holds it, no byte having
  been copied. If the bytes are the same, nothing more is done: the pointers stay, the
  array of \<^verbatim>\<open>last\<close> is as before the diff, and the scratch array holds the bytes just
  read, which are those same bytes. After the diff both arrays of every register have the
  length that \<^verbatim>\<open>last\<close> had before, the width of the register; the pointers of the vCPU
  are still all different; and no array other than the scratch arrays was written.
\<close>

theorem buffers_swapped_by_pointer:
  assumes "registers cpu = Some regs" and "distinct (bufs regs)"
    and "\<forall>reg\<in>set regs. length (rf (handle reg)) = length (h (last_buf reg))"
  shows "\<exists>l regs' h'.
      compute_hw_reg_leakage rf cpu h = Inr (l, cpu\<lparr>registers := Some regs'\<rparr>, h') \<and>
      length regs' = length regs \<and> distinct (bufs regs') \<and>
      (\<forall>n<length regs.
         handle (regs' ! n) = handle (regs ! n) \<and>
         (rf (handle (regs ! n)) \<noteq> h (last_buf (regs ! n)) \<longrightarrow>
            last_buf (regs' ! n) = new_buf (regs ! n) \<and> new_buf (regs' ! n) = last_buf (regs ! n) \<and>
            h' (last_buf (regs' ! n)) = rf (handle (regs ! n)) \<and>
            h' (new_buf (regs' ! n)) = h (last_buf (regs ! n))) \<and>
         (rf (handle (regs ! n)) = h (last_buf (regs ! n)) \<longrightarrow>
            regs' ! n = regs ! n \<and>
            h' (last_buf (regs ! n)) = h (last_buf (regs ! n)) \<and>
            h' (new_buf (regs ! n)) = rf (handle (regs ! n))) \<and>
         length (h' (last_buf (regs' ! n))) = length (h (last_buf (regs ! n))) \<and>
         length (h' (new_buf (regs' ! n))) = length (h (last_buf (regs ! n)))) \<and>
      (\<forall>a. a \<notin> new_buf ` set regs \<longrightarrow> h' a = h a)"
proof (intro exI conjI allI impI)
  show "compute_hw_reg_leakage rf cpu h =
      Inr (of_nat (sum_list (map (contribution rf h) regs)),
           cpu\<lparr>registers := Some (map (swapped rf h) regs)\<rparr>, read_all rf regs h)"
    using assms by (rule compute_ok)
  show "length (map (swapped rf h) regs) = length regs" by simp
  show "distinct (bufs (map (swapped rf h) regs))"
    using assms(2) by (rule distinct_bufs_swapped)
next
  fix n
  assume n: "n < length regs"
  then have m: "regs ! n \<in> set regs" by simp
  from n show "handle (map (swapped rf h) regs ! n) = handle (regs ! n)"
    by (simp add: handle_swapped)
  {
    assume ne: "rf (handle (regs ! n)) \<noteq> h (last_buf (regs ! n))"
    note a0 = after_loop_register(1) [where rf = rf and h = h, OF assms(2) m ne]
    from a0 have a: "last_buf (swapped rf h (regs ! n)) = new_buf (regs ! n)"
      "new_buf (swapped rf h (regs ! n)) = last_buf (regs ! n)"
      "read_all rf regs h (new_buf (regs ! n)) = rf (handle (regs ! n))"
      "read_all rf regs h (last_buf (regs ! n)) = h (last_buf (regs ! n))"
      by auto
    from n show "last_buf (map (swapped rf h) regs ! n) = new_buf (regs ! n)" by (simp add: a)
    from n show "new_buf (map (swapped rf h) regs ! n) = last_buf (regs ! n)" by (simp add: a)
    from n show "read_all rf regs h (last_buf (map (swapped rf h) regs ! n)) = rf (handle (regs ! n))"
      by (simp add: a)
    from n show "read_all rf regs h (new_buf (map (swapped rf h) regs ! n)) = h (last_buf (regs ! n))"
      by (simp add: a)
  }
  {
    assume eq: "rf (handle (regs ! n)) = h (last_buf (regs ! n))"
    note a = after_loop_register(2) [where rf = rf and h = h, OF assms(2) m eq]
    from a n show "map (swapped rf h) regs ! n = regs ! n" by simp
    from a show "read_all rf regs h (last_buf (regs ! n)) = h (last_buf (regs ! n))" by simp
    from a show "read_all rf regs h (new_buf (regs ! n)) = rf (handle (regs ! n))" by simp
  }
  have len: "length (rf (handle (regs ! n))) = length (h (last_buf (regs ! n)))"
    using assms(3) m by blast
  note b = after_loop_lengths [where rf = rf and h = h, OF assms(2) m len]
  from b(1) n show "length (read_all rf regs h (last_buf (map (swapped rf h) regs ! n)))
      = length (h (last_buf (regs ! n)))" by simp
  from b(2) n show "length (read_all rf regs h (new_buf (map (swapped rf h) regs ! n)))
      = length (h (last_buf (regs ! n)))" by simp
next
  fix a
  assume "a \<notin> new_buf ` set regs"
  then show "read_all rf regs h a = h a" by (rule read_all_other)
qed


text \<open>
  Two registers. The first held \<open>AA 01\<close> and now reads \<open>BB 02\<close>: its pointers are
  exchanged, the array that was \<^verbatim>\<open>new\<close> holds the new bytes, and the array that was
  \<^verbatim>\<open>last\<close> still holds \<open>AA 01\<close>. The second held \<open>07\<close> and reads \<open>07\<close>: its pointers
  stay, and both of its arrays hold \<open>07\<close>.
\<close>

theorem buffers_swapped_by_pointer_witness:
  "map_sum id (\<lambda>(l, cpu', h'). (registers cpu', map h' [0, 1, 2, 3]))
     (compute_hw_reg_leakage ((\<lambda>x. [])(0 := [0xBB, 0x02], 1 := [0x07]))
        \<lparr>last_cpu_index = 0,
           registers = Some [\<lparr>handle = 0, last_buf = 0, new_buf = 1\<rparr>,
                             \<lparr>handle = 1, last_buf = 2, new_buf = 3\<rparr>]\<rparr>
        ((\<lambda>a. [])(0 := [0xAA, 0x01], 1 := [0x11, 0x22], 2 := [0x07])))
   = Inr (Some [\<lparr>handle = 0, last_buf = 1, new_buf = 0\<rparr>,
                \<lparr>handle = 1, last_buf = 2, new_buf = 3\<rparr>],
          [[0xAA, 0x01], [0xBB, 0x02], [0x07], [0x07]])"
proof -
  let ?rf = "(\<lambda>x. [])(0 := [0xBB, 0x02], 1 := [0x07 :: u8]) :: handle \<Rightarrow> u8 list"
  let ?h = "(\<lambda>a. [])(0 := [0xAA, 0x01], 1 := [0x11, 0x22], 2 := [0x07 :: u8]) :: heap"
  let ?r0 = "\<lparr>handle = 0, last_buf = 0, new_buf = 1\<rparr>"
  let ?r1 = "\<lparr>handle = 1, last_buf = 2, new_buf = 3\<rparr>"
  let ?regs = "[?r0, ?r1]"
  let ?cpu = "\<lparr>last_cpu_index = 0, registers = Some ?regs\<rparr>"
  have r: "registers ?cpu = Some ?regs" by simp
  have d: "distinct (bufs ?regs)" by (simp add: bufs_def)
  have len: "\<forall>reg\<in>set ?regs. length (?rf (handle reg)) = length (?h (last_buf reg))" by simp
  from buffers_swapped_by_pointer [OF r d len] obtain l regs' h' where
    c: "compute_hw_reg_leakage ?rf ?cpu ?h = Inr (l, ?cpu\<lparr>registers := Some regs'\<rparr>, h')"
    and n: "length regs' = length ?regs"
    and each: "\<forall>n<length ?regs.
         handle (regs' ! n) = handle (?regs ! n) \<and>
         (?rf (handle (?regs ! n)) \<noteq> ?h (last_buf (?regs ! n)) \<longrightarrow>
            last_buf (regs' ! n) = new_buf (?regs ! n) \<and> new_buf (regs' ! n) = last_buf (?regs ! n) \<and>
            h' (last_buf (regs' ! n)) = ?rf (handle (?regs ! n)) \<and>
            h' (new_buf (regs' ! n)) = ?h (last_buf (?regs ! n))) \<and>
         (?rf (handle (?regs ! n)) = ?h (last_buf (?regs ! n)) \<longrightarrow>
            regs' ! n = ?regs ! n \<and>
            h' (last_buf (?regs ! n)) = ?h (last_buf (?regs ! n)) \<and>
            h' (new_buf (?regs ! n)) = ?rf (handle (?regs ! n))) \<and>
         length (h' (last_buf (regs' ! n))) = length (?h (last_buf (?regs ! n))) \<and>
         length (h' (new_buf (regs' ! n))) = length (?h (last_buf (?regs ! n)))"
    by blast
  from each have e0: "handle (regs' ! 0) = 0 \<and> last_buf (regs' ! 0) = 1 \<and> new_buf (regs' ! 0) = 0
      \<and> h' 1 = [0xBB, 0x02] \<and> h' 0 = [0xAA, 0x01]"
    by (auto dest!: spec [where x = 0])
  from each have e1: "regs' ! 1 = ?r1 \<and> h' 2 = [0x07] \<and> h' 3 = [0x07]"
    by (auto dest!: spec [where x = 1])
  from e0 have "regs' ! 0 = \<lparr>handle = 0, last_buf = 1, new_buf = 0\<rparr>" by (cases "regs' ! 0") simp
  with e1 n have "regs' = [\<lparr>handle = 0, last_buf = 1, new_buf = 0\<rparr>, ?r1]"
    by (cases regs'; cases "tl regs'") auto
  with c e0 e1 show ?thesis by simp
qed

section \<open>sca_hw.c: the initialisation of a vCPU\<close>

lemma init_vcpu_register_ok:
  assumes "rf (desc_handle d) \<noteq> []"
  shows "\<exists>s'. init_vcpu_register rf d s =
            Inr (\<lparr>handle = desc_handle d, last_buf = fresh s, new_buf = fresh s + 1\<rparr>, s')
          \<and> fresh s' = fresh s + 2 \<and> cpus s' = cpus s
          \<and> bytes s' (fresh s) = rf (desc_handle d) \<and> bytes s' (fresh s + 1) = []
          \<and> (\<forall>a. a \<noteq> fresh s \<and> a \<noteq> fresh s + 1 \<longrightarrow> bytes s' a = bytes s a)"
  using assms
  by (simp add: init_vcpu_register_def g_byte_array_new_def qemu_plugin_read_register_def Let_def)


lemma registers_loop_ok:
  assumes "\<forall>d\<in>set rl. rf (desc_handle d) \<noteq> []"
  shows "\<exists>regs s'. registers_loop rf rl s = Inr (regs, s')
          \<and> map handle regs = map desc_handle rl
          \<and> distinct (bufs regs) \<and> set (bufs regs) \<subseteq> {fresh s..<fresh s'} \<and> fresh s \<le> fresh s'
          \<and> cpus s' = cpus s
          \<and> (\<forall>r\<in>set regs. bytes s' (last_buf r) = rf (handle r) \<and> bytes s' (new_buf r) = [])
          \<and> (\<forall>a<fresh s. bytes s' a = bytes s a)"
  using assms
proof (induction rl arbitrary: s)
  case Nil
  then show ?case by (simp add: bufs_def)
next
  case (Cons d rl)
  let ?reg = "\<lparr>handle = desc_handle d, last_buf = fresh s, new_buf = fresh s + 1\<rparr>"
  from Cons.prems have "rf (desc_handle d) \<noteq> []" by simp
  from init_vcpu_register_ok [where rf = rf and d = d and s = s, OF this] obtain s1 where
    i: "init_vcpu_register rf d s = Inr (?reg, s1)"
    and f1: "fresh s1 = fresh s + 2" and c1: "cpus s1 = cpus s"
    and b1: "bytes s1 (fresh s) = rf (desc_handle d)" "bytes s1 (fresh s + 1) = []"
    and o1: "\<forall>a. a \<noteq> fresh s \<and> a \<noteq> fresh s + 1 \<longrightarrow> bytes s1 a = bytes s a"
    by blast
  from Cons.prems have "\<forall>d\<in>set rl. rf (desc_handle d) \<noteq> []" by simp
  from Cons.IH [OF this, of s1] obtain regs s' where
    l: "registers_loop rf rl s1 = Inr (regs, s')"
    and h: "map handle regs = map desc_handle rl"
    and d: "distinct (bufs regs)" and sub: "set (bufs regs) \<subseteq> {fresh s1..<fresh s'}"
    and le: "fresh s1 \<le> fresh s'" and c: "cpus s' = cpus s1"
    and b: "\<forall>r\<in>set regs. bytes s' (last_buf r) = rf (handle r) \<and> bytes s' (new_buf r) = []"
    and o: "\<forall>a<fresh s1. bytes s' a = bytes s1 a"
    by blast
  have res: "registers_loop rf (d # rl) s = Inr (?reg # regs, s')" using i l by simp
  have notin: "fresh s \<notin> set (bufs regs)" "fresh s + 1 \<notin> set (bufs regs)"
    using sub f1 by auto
  have dist: "distinct (bufs (?reg # regs))"
    unfolding distinct_bufs_iff using d notin by simp
  have sub': "set (bufs (?reg # regs)) \<subseteq> {fresh s..<fresh s'}"
    using sub f1 le by (auto simp: bufs_def)
  have b0: "bytes s' (fresh s) = rf (desc_handle d)" "bytes s' (fresh s + 1) = []"
    using o f1 b1 by simp_all
  have old: "\<forall>a<fresh s. bytes s' a = bytes s a" using o o1 f1 by simp
  show ?case
    using res h dist sub' le f1 c c1 b b0 old by auto
qed



lemma CPU_update_all:
  "(c :: CPU)\<lparr>last_cpu_index := a, registers := b\<rparr> = \<lparr>last_cpu_index = a, registers = b\<rparr>"
  by (cases c) simp









section \<open>sca_hw.c: the table of the vCPUs\<close>



section \<open>sca_hw.c: one record per instruction but the last\<close>

lemma sint_minus_one_iff: "sint (i :: u32) = - 1 \<longleftrightarrow> i = - 1"
  by (metis sint_n1 word_eq_iff_signed)

lemma get_cpu_update:
  assumes "get_cpu i s = Inr c"
  shows "get_cpu i (s\<lparr>cpus := (cpus s)[unat i := c'], bytes := h\<rparr>) = Inr c'"
    and "get_cpu i (s\<lparr>cpus := (cpus s)[unat i := c']\<rparr>) = Inr c'"
  using assms by (auto simp: get_cpu_def split: if_splits)

text \<open>One callback on a vCPU whose registers are tracked, the reads having their widths.\<close>

lemma exec_tracked:
  assumes g: "get_cpu i s = Inr c" and r: "registers c = Some regs"
    and d: "distinct (bufs regs)"
    and w: "\<forall>r\<in>set regs. length (bytes s (last_buf r)) = w (handle r)"
    and rd: "\<forall>r\<in>set regs. length (rf (handle r)) = w (handle r)"
  shows "\<exists>evs s' c' regs'.
      vcpu_insn_exec_sca_hw rf i s = Inr (evs, s') \<and>
      (last_cpu_index c = - 1 \<longrightarrow> evs = []) \<and>
      (last_cpu_index c \<noteq> - 1 \<longrightarrow> (\<exists>l. evs = [Outs (HwLeakage (last_cpu_index c) l)])) \<and>
      get_cpu i s' = Inr c' \<and> last_cpu_index c' = sint i \<and> registers c' = Some regs' \<and>
      distinct (bufs regs') \<and> map handle regs' = map handle regs \<and>
      (\<forall>r\<in>set regs'. length (bytes s' (last_buf r)) = w (handle r))"
proof (cases "last_cpu_index c = - 1")
  case True
  let ?c' = "c\<lparr>last_cpu_index := sint i\<rparr>"
  let ?s' = "s\<lparr>cpus := (cpus s)[unat i := ?c']\<rparr>"
  have "vcpu_insn_exec_sca_hw rf i s = Inr ([], ?s')"
    using g True by (simp add: vcpu_insn_exec_sca_hw_def)
  moreover have "get_cpu i ?s' = Inr ?c'" using g by (rule get_cpu_update(2))
  ultimately show ?thesis using True r d w by auto
next
  case False
  let ?h = "bytes s"
  let ?regs' = "map (swapped rf ?h) regs"
  let ?c' = "c\<lparr>registers := Some ?regs'\<rparr>\<lparr>last_cpu_index := sint i\<rparr>"
  let ?s' = "s\<lparr>cpus := (cpus s)[unat i := ?c'], bytes := read_all rf regs ?h\<rparr>"
  have len: "\<forall>reg\<in>set regs. length (rf (handle reg)) = length (?h (last_buf reg))"
    using w rd by simp
  have c: "compute_hw_reg_leakage rf c ?h =
      Inr (of_nat (sum_list (map (contribution rf ?h) regs)), c\<lparr>registers := Some ?regs'\<rparr>,
           read_all rf regs ?h)"
    using r d len by (rule compute_ok)
  have e: "vcpu_insn_exec_sca_hw rf i s =
      Inr ([Outs (HwLeakage (last_cpu_index c) (of_nat (sum_list (map (contribution rf ?h) regs))))], ?s')"
    using g False c by (simp add: vcpu_insn_exec_sca_hw_def)
  have g': "get_cpu i ?s' = Inr ?c'" using g by (rule get_cpu_update(1))
  have d': "distinct (bufs ?regs')" using d by (rule distinct_bufs_swapped)
  have h': "map handle ?regs' = map handle regs" by (simp add: handle_swapped)
  have w': "\<forall>r\<in>set ?regs'. length (bytes ?s' (last_buf r)) = w (handle r)"
  proof
    fix r'
    assume "r' \<in> set ?regs'"
    then obtain r0 where r0: "r0 \<in> set regs" and eq: "r' = swapped rf ?h r0" by auto
    from len r0 have l0: "length (rf (handle r0)) = length (?h (last_buf r0))" by blast
    from after_loop_lengths(1) [where rf = rf and h = ?h, OF d r0 l0] w r0
    show "length (bytes ?s' (last_buf r')) = w (handle r')"
      by (simp add: eq handle_swapped)
  qed
  show ?thesis using e g' d' h' w' False by auto
qed


lemma run_tracked:
  assumes ne: "i \<noteq> - 1" and g: "get_cpu i s = Inr c" and r: "registers c = Some regs"
    and d: "distinct (bufs regs)"
    and w: "\<forall>r\<in>set regs. length (bytes s (last_buf r)) = w (handle r)"
    and rd: "\<forall>rf\<in>set rfs. \<forall>h\<in>set (map handle regs). length (rf h) = w h"
    and lc: "last_cpu_index c = - 1 \<or> last_cpu_index c = sint i"
  shows "\<exists>evs s'. run_sca_hw i rfs s = Inr (evs, s') \<and>
           length evs = (if last_cpu_index c = - 1 then length rfs - 1 else length rfs) \<and>
           (\<forall>e\<in>set evs. \<exists>l. e = Outs (HwLeakage (sint i) l))"
  using g r d w rd lc
proof (induction rfs arbitrary: s c regs)
  case Nil
  then show ?case by simp
next
  case (Cons rf rfs)
  have rd0: "\<forall>r\<in>set regs. length (rf (handle r)) = w (handle r)"
    using Cons.prems(5) by simp
  from exec_tracked [OF Cons.prems(1,2,3,4) rd0] obtain evs0 s1 c1 regs1 where
    e: "vcpu_insn_exec_sca_hw rf i s = Inr (evs0, s1)"
    and e0: "last_cpu_index c = - 1 \<longrightarrow> evs0 = []"
    and e1: "last_cpu_index c \<noteq> - 1 \<longrightarrow> (\<exists>l. evs0 = [Outs (HwLeakage (last_cpu_index c) l)])"
    and g1: "get_cpu i s1 = Inr c1" and l1: "last_cpu_index c1 = sint i"
    and r1: "registers c1 = Some regs1" and d1: "distinct (bufs regs1)"
    and h1: "map handle regs1 = map handle regs"
    and w1: "\<forall>r\<in>set regs1. length (bytes s1 (last_buf r)) = w (handle r)"
    by blast
  have rd1: "\<forall>rf\<in>set rfs. \<forall>h\<in>set (map handle regs1). length (rf h) = w h"
    using Cons.prems(5) h1 by simp
  have n1: "last_cpu_index c1 \<noteq> - 1" using l1 ne by (simp add: sint_minus_one_iff)
  have lc1: "last_cpu_index c1 = - 1 \<or> last_cpu_index c1 = sint i" using l1 by simp
  from Cons.IH [OF g1 r1 d1 w1 rd1 lc1] n1 obtain evs1 s2 where
    run: "run_sca_hw i rfs s1 = Inr (evs1, s2)" and len: "length evs1 = length rfs"
    and all: "\<forall>e\<in>set evs1. \<exists>l. e = Outs (HwLeakage (sint i) l)"
    by auto
  have res: "run_sca_hw i (rf # rfs) s = Inr (evs0 @ evs1, s2)" using e run by simp
  show ?case
  proof (cases "last_cpu_index c = - 1")
    case True
    with e0 have "evs0 = []" by simp
    with res len all True show ?thesis by simp
  next
    case False
    with e1 Cons.prems(6) obtain l where "evs0 = [Outs (HwLeakage (sint i) l)]" by auto
    with res len all False show ?thesis by simp
  qed
qed

text \<open>The vCPU that \<^verbatim>\<open>vcpu_init\<close> has set up, when the emulator lists at least one register.\<close>

lemma vcpu_init_tracked:
  assumes ne: "vcpu_index \<noteq> - 1" and rl: "rl \<noteq> []"
    and rd: "\<forall>d\<in>set rl. rf (desc_handle d) \<noteq> []"
  shows "\<exists>s' c regs. vcpu_init rf rl vcpu_index s = Inr s' \<and> get_cpu vcpu_index s' = Inr c \<and>
           last_cpu_index c = - 1 \<and> registers c = Some regs \<and> distinct (bufs regs) \<and>
           map handle regs = map desc_handle rl \<and>
           (\<forall>r\<in>set regs. bytes s' (last_buf r) = rf (handle r))"
proof -
  let ?a = "if unat vcpu_index \<ge> length (cpus s)
            then cpus s @ replicate (unat vcpu_index + 1 - length (cpus s)) zero_CPU
            else cpus s"
  let ?s1 = "if unat vcpu_index \<ge> length (cpus s)
             then s\<lparr>cpus := g_array_set_size (cpus s) (unat (vcpu_index + 1))\<rparr> else s"
  have a: "cpus ?s1 = ?a"
    using ne by (simp add: g_array_set_size_def unat_plus_one)
  have inr: "unat vcpu_index < length ?a" by simp
  then have g: "get_cpu vcpu_index ?s1 = Inr (?a ! unat vcpu_index)"
    unfolding get_cpu_def a by simp
  let ?s2 = "?s1\<lparr>cpus := (cpus ?s1)[unat vcpu_index := (?a ! unat vcpu_index)\<lparr>last_cpu_index := - 1\<rparr>]\<rparr>"
  from registers_loop_ok [OF rd, of ?s2] obtain regs s3 where
    l: "registers_loop rf rl ?s2 = Inr (regs, s3)"
    and h: "map handle regs = map desc_handle rl" and d: "distinct (bufs regs)"
    and c: "cpus s3 = cpus ?s2"
    and b: "\<forall>r\<in>set regs. bytes s3 (last_buf r) = rf (handle r) \<and> bytes s3 (new_buf r) = []"
    by blast
  from h rl have "regs \<noteq> []" by auto
  with l have ri: "registers_init rf rl ?s2 = Inr (Some regs, s3)"
    by (simp add: registers_init_def)
  let ?s' = "s3\<lparr>cpus := (cpus s3)[unat vcpu_index :=
                 (cpus s3 ! unat vcpu_index)\<lparr>registers := Some regs\<rparr>]\<rparr>"
  have v: "vcpu_init rf rl vcpu_index s = Inr ?s'"
    using g ri by (simp add: vcpu_init_def Let_def)
  have "cpus ?s' = ?a[unat vcpu_index := \<lparr>last_cpu_index = - 1, registers = Some regs\<rparr>]"
    using c a inr by (simp add: CPU_update_all)
  then have "get_cpu vcpu_index ?s' = Inr \<lparr>last_cpu_index = - 1, registers = Some regs\<rparr>"
    unfolding get_cpu_def using inr by simp
  moreover have "\<forall>r\<in>set regs. bytes ?s' (last_buf r) = rf (handle r)" using b by simp
  ultimately show ?thesis using v d h by auto
qed


text \<open>
  A vCPU with registers. After \<^verbatim>\<open>vcpu_init\<close>, when the emulator lists at least one
  register, every register reads at least one byte, and every later read of a register has
  the length of its first read: the first callback emits no record and every later one
  emits exactly one, so \<open>N\<close> callbacks on the vCPU emit \<open>N - 1\<close> records, all with the
  index of the vCPU; the run does not fault.
\<close>

lemma one_record_per_instruction_but_the_last:
  assumes ne: "vcpu_index \<noteq> - 1" and rl: "rl \<noteq> []"
    and rd0: "\<forall>d\<in>set rl. rf0 (desc_handle d) \<noteq> []"
    and rd: "\<forall>rf\<in>set rfs. \<forall>d\<in>set rl. length (rf (desc_handle d)) = length (rf0 (desc_handle d))"
  shows "\<exists>s1 evs s2. vcpu_init rf0 rl vcpu_index s = Inr s1 \<and>
           run_sca_hw vcpu_index rfs s1 = Inr (evs, s2) \<and>
           length evs = length rfs - 1 \<and>
           (\<forall>e\<in>set evs. \<exists>l. e = Outs (HwLeakage (sint vcpu_index) l))"
proof -
  from vcpu_init_tracked [OF ne rl rd0, of s] obtain s1 c regs where
    v: "vcpu_init rf0 rl vcpu_index s = Inr s1" and g: "get_cpu vcpu_index s1 = Inr c"
    and l: "last_cpu_index c = - 1" and r: "registers c = Some regs"
    and d: "distinct (bufs regs)" and h: "map handle regs = map desc_handle rl"
    and b: "\<forall>r\<in>set regs. bytes s1 (last_buf r) = rf0 (handle r)"
    by blast
  let ?w = "\<lambda>h. length (rf0 h)"
  have w: "\<forall>r\<in>set regs. length (bytes s1 (last_buf r)) = ?w (handle r)" using b by simp
  have "set (map handle regs) = desc_handle ` set rl" using h by simp
  then have rds: "\<forall>rf\<in>set rfs. \<forall>h\<in>set (map handle regs). length (rf h) = ?w h"
    using rd by auto
  have lc: "last_cpu_index c = - 1 \<or> last_cpu_index c = sint vcpu_index" using l by simp
  from run_tracked [OF ne g r d w rds lc] l v show ?thesis by auto
qed

text \<open>
  One register of one byte that reads \<open>00\<close>, \<open>FF\<close>, \<open>FF\<close> and \<open>0F\<close> at four
  callbacks: three records, with leakage 8, 0 and 4.
\<close>

lemma one_record_example:
  "(case vcpu_init (\<lambda>h. [0x00])
            [\<lparr>desc_handle = 0, desc_name = ''r0'', desc_feature = ''core''\<rparr>] 0 sca_hw_start of
      Inl f \<Rightarrow> Inl f
    | Inr s \<Rightarrow>
        map_sum id fst
          (run_sca_hw 0 [(\<lambda>h. [0x00]), (\<lambda>h. [0xFF]), (\<lambda>h. [0xFF]), (\<lambda>h. [0x0F])] s)) =
   Inr [Outs (HwLeakage 0 8), Outs (HwLeakage 0 0), Outs (HwLeakage 0 4)]"
  by code_simp

text \<open>
  Claim C2. On every vCPU, the first callback after \<^verbatim>\<open>vcpu_init\<close> emits no record and every
  later callback emits exactly one, so that \<open>N\<close> instructions give \<open>N - 1\<close> records. The
  code does this for a vCPU with registers. It fails for a vCPU for which the emulator
  lists no register: \<^verbatim>\<open>registers_init\<close> then returns \<^verbatim>\<open>NULL\<close>, as its last line says, and
  \<^verbatim>\<open>compute_hw_reg_leakage\<close> reads \<^verbatim>\<open>cpu->registers->len\<close> without a test. The first
  callback emits nothing and returns; the second one dereferences \<^verbatim>\<open>NULL\<close> and emits no
  record.
\<close>

theorem second_callback_faults_without_registers:
  "vcpu_init (\<lambda>h. []) [] 0 sca_hw_start =
     Inr (sca_hw_start\<lparr>cpus := [\<lparr>last_cpu_index = - 1, registers = None\<rparr>]\<rparr>) \<and>
   map_sum id fst
     (run_sca_hw 0 [\<lambda>h. []]
        (sca_hw_start\<lparr>cpus := [\<lparr>last_cpu_index = - 1, registers = None\<rparr>]\<rparr>)) = Inr [] \<and>
   map_sum id fst
     (run_sca_hw 0 [\<lambda>h. [], \<lambda>h. []]
        (sca_hw_start\<lparr>cpus := [\<lparr>last_cpu_index = - 1, registers = None\<rparr>]\<rparr>)) = Inl NullDeref"
  by (simp add: vcpu_init_def registers_init_def get_cpu_def g_array_set_size_def zero_CPU_def
        sca_hw_start_def vcpu_insn_exec_sca_hw_def compute_hw_reg_leakage_def Let_def)

end
